theory Spec2Isabelle
  imports Complex_Main "HOL-Library.AList"
begin

section \<open>Python values used by \<open>point_cloud_dataset.py\<close>\<close>

text \<open>
  Every \<^verbatim>\<open>raise\<close> of the source, and every exception raised by the interpreter or by
  a library call on the paths of \<^verbatim>\<open>load\<close>, is a value of \<open>error\<close>. The exceptions the
  source raises itself carry the message the source formats; the exceptions of the
  interpreter and of the libraries carry the name they complain about (a local
  variable, an attribute, a record field) or an abridged message.
\<close>

datatype error =
    RuntimeError string
  | ValueError string
  | TypeError string
  | IndexError string
  | AxisError string
  | AssertionError
  | UnboundLocalError string
  | AttributeError string
  | FieldNotFoundError string
  | OSError string

text \<open>Decimal rendering of integers, as an f-string does it.\<close>

definition digit :: "nat \<Rightarrow> char" where
  "digit d = ''0123456789'' ! d"

function str_nat :: "nat \<Rightarrow> string" where
  "str_nat n = (if n < 10 then [digit n] else str_nat (n div 10) @ [digit (n mod 10)])"
  by pat_completeness auto
termination
  by (relation "measure (\<lambda>n. n)") auto

declare str_nat.simps [simp del]

definition str_int :: "int \<Rightarrow> string" where
  "str_int i = (if i < 0 then CHR ''-'' # str_nat (nat (- i)) else str_nat (nat i))"

definition quoted :: "string \<Rightarrow> string" where
  "quoted s = CHR 0x22 # s @ [CHR 0x22]"

subsection \<open>numpy arrays\<close>

text \<open>
  A numpy array is its shape and its elements in row-major order. The functions below
  are the numpy calls of the source, with the checks numpy makes before it builds the
  result.
\<close>

record 'a ndarray =
  shape :: "nat list"
  data :: "'a list"

definition ndim :: "'a ndarray \<Rightarrow> nat" where
  "ndim a = length (shape a)"

text \<open>\<open>row a i\<close> is the block \<^verbatim>\<open>a[i]\<close> of an array of at least one dimension.\<close>

definition row :: "'a ndarray \<Rightarrow> nat \<Rightarrow> 'a list" where
  "row a i = (let sz = prod_list (tl (shape a)) in take sz (drop (i * sz) (data a)))"

text \<open>\<^verbatim>\<open>np.stack(arrays, -1)\<close>\<close>

definition np_stack_last :: "'a ndarray list \<Rightarrow> error + 'a ndarray" where
  "np_stack_last arrays =
     (if arrays = [] then Inl (ValueError ''need at least one array to stack'')
      else if \<not> list_all (\<lambda>a. shape a = shape (hd arrays)) arrays
        then Inl (ValueError ''all input arrays must have the same shape'')
      else Inr \<lparr>shape = shape (hd arrays) @ [length arrays],
                data = concat (transpose (map data arrays))\<rparr>)"

text \<open>\<^verbatim>\<open>np.stack(arrays, axis=1)\<close>\<close>

definition np_stack_axis1 :: "'a ndarray list \<Rightarrow> error + 'a ndarray" where
  "np_stack_axis1 arrays =
     (if arrays = [] then Inl (ValueError ''need at least one array to stack'')
      else if \<not> list_all (\<lambda>a. shape a = shape (hd arrays)) arrays
        then Inl (ValueError ''all input arrays must have the same shape'')
      else (case shape (hd arrays) of
              [] \<Rightarrow> Inl (AxisError ''axis 1 is out of bounds for array of dimension 1'')
            | n # t \<Rightarrow>
                Inr \<lparr>shape = n # length arrays # t,
                     data = concat (map (\<lambda>i. concat (map (\<lambda>a. row a i) arrays)) [0..<n])\<rparr>))"

text \<open>\<^verbatim>\<open>np.concatenate(arrays)\<close>, along axis 0\<close>

definition np_concatenate :: "'a ndarray list \<Rightarrow> error + 'a ndarray" where
  "np_concatenate arrays =
     (if arrays = [] then Inl (ValueError ''need at least one array to concatenate'')
      else if list_ex (\<lambda>a. shape a = []) arrays
        then Inl (ValueError ''zero-dimensional arrays cannot be concatenated'')
      else if \<not> list_all (\<lambda>a. ndim a = ndim (hd arrays)) arrays
        then Inl (ValueError ''all the input arrays must have same number of dimensions'')
      else if \<not> list_all (\<lambda>a. tl (shape a) = tl (shape (hd arrays))) arrays
        then Inl (ValueError ''all the input array dimensions except for the concatenation axis must match exactly'')
      else Inr \<lparr>shape = sum_list (map (\<lambda>a. hd (shape a)) arrays) # tl (shape (hd arrays)),
                data = concat (map data arrays)\<rparr>)"

text \<open>\<^verbatim>\<open>a[index]\<close> with an integer index array, on an array and on a one-dimensional list\<close>

definition take_rows :: "'a ndarray \<Rightarrow> nat list \<Rightarrow> error + 'a ndarray" where
  "take_rows a index =
     (if list_ex (\<lambda>i. hd (shape a) \<le> i) index then Inl (IndexError ''index out of bounds'')
      else Inr \<lparr>shape = length index # tl (shape a), data = concat (map (row a) index)\<rparr>)"

definition take_items :: "'a list \<Rightarrow> nat list \<Rightarrow> error + 'a list" where
  "take_items xs index =
     (if list_ex (\<lambda>i. length xs \<le> i) index then Inl (IndexError ''index out of bounds'')
      else Inr (map (\<lambda>i. xs ! i) index))"

text \<open>\<^verbatim>\<open>np.expand_dims(a, axis=-1)\<close> of a one-dimensional array\<close>

definition expand_dims :: "'a list \<Rightarrow> 'a ndarray" where
  "expand_dims xs = \<lparr>shape = [length xs, 1], data = xs\<rparr>"

subsection \<open>awkward arrays\<close>

text \<open>
  A column of a jet holds, per event, one scalar (\<open>Flat\<close>, awkward's type
  \<^verbatim>\<open>float64\<close>), one list of a fixed size (\<open>Regular width rows\<close>, type
  \<^verbatim>\<open>size * float64\<close>, every row of \<open>rows\<close> having \<open>size\<close> elements) or one list of
  variable length (\<open>Ragged\<close>, type \<^verbatim>\<open>var * float64\<close>). A sample is a record array: its
  length and, per jet key, the columns of that jet. A combined file holds one such
  record per sample name.
\<close>

datatype column = Flat "rat list" | Regular nat "rat list list" | Ragged "rat list list"

record ak_sample =
  nevents :: nat
  jets :: "(string \<times> (string \<times> column) list) list"

datatype ak_file = Combined "(string \<times> ak_sample) list" | Single ak_sample

definition ak_fields :: "ak_file \<Rightarrow> string list" where
  "ak_fields a = (case a of Combined fs \<Rightarrow> map fst fs | Single s \<Rightarrow> map fst (jets s))"

text \<open>\<^verbatim>\<open>record[key]\<close>: the lookup error of the library names the key, nothing else.\<close>

definition getitem :: "(string \<times> 'v) list \<Rightarrow> string \<Rightarrow> error + 'v" where
  "getitem r key = (case map_of r key of None \<Rightarrow> Inl (FieldNotFoundError key) | Some v \<Rightarrow> Inr v)"

text \<open>\<^verbatim>\<open>ak.pad_none(array, target, clip=True)\<close> and \<^verbatim>\<open>ak.fill_none\<close>\<close>

definition pad_none :: "'a list list \<Rightarrow> nat \<Rightarrow> 'a option list list" where
  "pad_none array target =
     map (\<lambda>xs. map Some (take target xs) @ replicate (target - length xs) None) array"

definition fill_none :: "'a option list list \<Rightarrow> 'a \<Rightarrow> 'a list list" where
  "fill_none array v = map (map (\<lambda>x. case x of None \<Rightarrow> v | Some y \<Rightarrow> y)) array"

text \<open>
  \<^verbatim>\<open>ak.to_numpy\<close> of a regular array of the given width. On an array with option type
  it returns a numpy masked array, whose \<^verbatim>\<open>.mask\<close> is true at the missing entries; when
  no entry is missing the masked array is built without a mask and \<^verbatim>\<open>.mask\<close> is numpy's
  \<^verbatim>\<open>nomask\<close>, the zero-dimensional \<^verbatim>\<open>False\<close>.
\<close>

definition to_numpy :: "'a list list \<Rightarrow> nat \<Rightarrow> 'a ndarray" where
  "to_numpy rows width = \<lparr>shape = [length rows, width], data = concat rows\<rparr>"

definition nomask :: "bool ndarray" where
  "nomask = \<lparr>shape = [], data = [False]\<rparr>"

definition to_numpy_mask :: "'a option list list \<Rightarrow> nat \<Rightarrow> bool ndarray" where
  "to_numpy_mask rows width =
     (if list_ex (list_ex Option.is_none) rows
      then to_numpy (map (map Option.is_none) rows) width
      else nomask)"

section \<open>The static helpers of \<open>PointCloudDataset\<close>\<close>

text \<open>
  The helpers are called with the default \<^verbatim>\<open>clip=True\<close> and \<^verbatim>\<open>pad_val=0\<close> only.
  \<open>get_padded_array\<close> and \<open>get_mask_array\<close> are applied to the columns of
  variable-length lists, \<open>get_array\<close> to every other column: \<^verbatim>\<open>load\<close> chooses by
  \<open>is_ragged\<close>, which tests for awkward's \<^verbatim>\<open>ListType\<close>; a column of fixed-size lists has
  \<^verbatim>\<open>RegularType\<close>.
\<close>

definition is_ragged :: "column \<Rightarrow> bool" where
  "is_ragged array =
     (case array of Ragged xss \<Rightarrow> True | Regular width rows \<Rightarrow> False | Flat xs \<Rightarrow> False)"

definition get_padded_array :: "rat list list \<Rightarrow> nat \<Rightarrow> nat option \<Rightarrow> rat ndarray" where
  "get_padded_array array pad_size sample_size =
     (case sample_size of
        None \<Rightarrow> to_numpy (fill_none (pad_none array pad_size) 0) pad_size
      | Some n \<Rightarrow> to_numpy (fill_none (pad_none (take n array) pad_size) 0) pad_size)"

text \<open>
  \<^verbatim>\<open>array[:n]\<close> and \<^verbatim>\<open>ak.to_numpy(array)\<close> on a column without missing values: scalars
  give a one-dimensional array, fixed-size lists a two-dimensional one, and so do
  variable-length lists when they all have one length; otherwise the conversion raises.
\<close>

definition slice_column :: "column \<Rightarrow> nat \<Rightarrow> column" where
  "slice_column array n =
     (case array of
        Flat xs \<Rightarrow> Flat (take n xs)
      | Regular width rows \<Rightarrow> Regular width (take n rows)
      | Ragged xss \<Rightarrow> Ragged (take n xss))"

definition ak_to_numpy :: "column \<Rightarrow> error + rat ndarray" where
  "ak_to_numpy array =
     (case array of
        Flat xs \<Rightarrow> Inr \<lparr>shape = [length xs], data = xs\<rparr>
      | Regular width rows \<Rightarrow> Inr (to_numpy rows width)
      | Ragged xss \<Rightarrow>
          (let width = (case xss of [] \<Rightarrow> 0 | xs # rest \<Rightarrow> length xs)
           in if list_all (\<lambda>xs. length xs = width) xss then Inr (to_numpy xss width)
              else Inl (ValueError ''cannot convert to RegularArray because subarray lengths are not regular'')))"

definition get_array :: "column \<Rightarrow> nat option \<Rightarrow> error + rat ndarray" where
  "get_array array sample_size =
     (case sample_size of
        None \<Rightarrow> ak_to_numpy array
      | Some n \<Rightarrow> ak_to_numpy (slice_column array n))"

definition get_mask_array :: "'a list list \<Rightarrow> nat \<Rightarrow> nat option \<Rightarrow> bool ndarray" where
  "get_mask_array array pad_size sample_size =
     (case sample_size of
        None \<Rightarrow> to_numpy_mask (pad_none array pad_size) pad_size
      | Some n \<Rightarrow> to_numpy_mask (pad_none (take n array) pad_size) pad_size)"

section \<open>The dataset object\<close>

datatype tensor = Feat "rat ndarray" | Mask "bool ndarray"

record config =
  feature_dict :: "(string \<times> string list) list"
  sample_sizes :: "(string \<times> int) list"
  label_map :: "(string \<times> int) list"
  num_jets :: nat
  pad_size :: nat
  shuffle :: bool
  seed :: int

text \<open>
  The attributes \<^verbatim>\<open>_features\<close>, \<^verbatim>\<open>_labels\<close> and \<^verbatim>\<open>_weights\<close> are \<open>p_features\<close>,
  \<open>p_labels\<close> and \<open>p_weights\<close>; \<open>None\<close> is Python's \<^verbatim>\<open>None\<close>.
\<close>

record pcd =
  cfg :: config
  cache_arrays :: "ak_file option"
  cache_sample_arrays :: "ak_sample option"
  p_features :: "(string \<times> tensor) list option"
  p_labels :: "int ndarray option"
  p_weights :: "rat ndarray option"

datatype filenames = Str string | Dict "(string \<times> string) list" | Other

text \<open>
  What \<^verbatim>\<open>load\<close> takes from outside: the parquet reader, on a combined file and on a
  per-sample file, the permutation \<^verbatim>\<open>np.random.shuffle\<close> draws for a seed, and the
  division of the platform's float64 arithmetic: \<open>float_divide ev w n\<close> is the float64
  that \<^verbatim>\<open>w / n\<close> gives for a float64 \<open>w\<close> and an integer \<open>n\<close>. A float64 value is the
  rational number it stands for.
\<close>

record env =
  read_combined :: "string \<Rightarrow> error + (string \<times> ak_sample) list"
  read_sample :: "string \<Rightarrow> error + ak_sample"
  random_shuffle :: "int \<Rightarrow> nat list \<Rightarrow> nat list"
  float_divide :: "rat \<Rightarrow> nat \<Rightarrow> rat"

text \<open>
  \<open>load_sample_data\<close> is the method \<^verbatim>\<open>_load_sample_data\<close>. It returns nothing; the
  model returns the raised error, if any, and the object with its cache as the method
  leaves it. A single file name is read as a combined file, the file of a dictionary
  entry as the record of one sample.
\<close>

definition load_sample_data :: "env \<Rightarrow> filenames \<Rightarrow> string \<Rightarrow> pcd \<Rightarrow> (error + unit) \<times> pcd" where
  "load_sample_data ev fnames sample self =
     (case fnames of
        Str filename \<Rightarrow>
          (case cache_arrays self of
             Some c \<Rightarrow>
               (if sample \<notin> set (ak_fields c)
                then (Inl (RuntimeError (''dataset does not contain the sample '' @ quoted sample)), self)
                else (Inr (), self))
           | None \<Rightarrow>
               (case read_combined ev filename of
                  Inl e \<Rightarrow> (Inl e, self)
                | Inr c \<Rightarrow>
                    (let self1 = self\<lparr>cache_arrays := Some (Combined c)\<rparr>
                     in case getitem c sample of
                          Inl e \<Rightarrow> (Inl e, self1)
                        | Inr s \<Rightarrow> (Inr (), self1\<lparr>cache_sample_arrays := Some s\<rparr>))))
      | Dict d \<Rightarrow>
          (case map_of d sample of
             None \<Rightarrow> (Inl (ValueError (''no input file specified for the sample '' @ quoted sample)), self)
           | Some filename \<Rightarrow>
               (case read_sample ev filename of
                  Inl e \<Rightarrow> (Inl e, self)
                | Inr s \<Rightarrow>
                    (Inr (), self\<lparr>cache_arrays := Some (Single s), cache_sample_arrays := Some s\<rparr>)))
      | Other \<Rightarrow> (Inl (ValueError ''filenames must be a string or a dictionary''), self))"

definition clear_cache :: "pcd \<Rightarrow> pcd" where
  "clear_cache self = self\<lparr>cache_arrays := None, cache_sample_arrays := None\<rparr>"

section \<open>\<open>load\<close>\<close>

text \<open>
  The local variables of \<^verbatim>\<open>load\<close> that live across the loop over the samples:
  \<^verbatim>\<open>features\<close> (per feature type, the tensors of the samples so far), \<^verbatim>\<open>labels\<close>,
  \<^verbatim>\<open>masks\<close> and \<^verbatim>\<open>class_sizes\<close>. Python dictionaries are association lists in
  insertion order with distinct keys; \<open>AList.update\<close> overwrites in place or appends, as
  an assignment to a dictionary key does.
\<close>

record locals =
  features :: "(string \<times> rat ndarray list) list"
  labels :: "int list list"
  masks :: "bool ndarray list"
  class_sizes :: "(int \<times> nat) list"

definition jet_key :: "nat \<Rightarrow> string" where
  "jet_key i = CHR ''j'' # str_nat i"

text \<open>
  Lines 144--156, the loop over the columns of one jet: \<open>feature_arrays\<close> and
  \<open>mask_array\<close> are the loop's variables. The case distinction on the column is the
  test \<^verbatim>\<open>self.is_ragged(arrays)\<close>.
\<close>

fun load_columns ::
  "nat \<Rightarrow> nat \<Rightarrow> ak_sample \<Rightarrow> string \<Rightarrow> string list \<Rightarrow> rat ndarray list \<Rightarrow> bool ndarray option
    \<Rightarrow> error + (rat ndarray list \<times> bool ndarray option)" where
  "load_columns padsz sample_size sample_arrays jkey [] feature_arrays mask_array =
     Inr (feature_arrays, mask_array)"
| "load_columns padsz sample_size sample_arrays jkey (column # columns) feature_arrays mask_array =
     (case getitem (jets sample_arrays) jkey of
        Inl e \<Rightarrow> Inl e
      | Inr jet \<Rightarrow>
          (case getitem jet column of
             Inl e \<Rightarrow> Inl e
           | Inr arrays \<Rightarrow>
               (case arrays of
                  Ragged xss \<Rightarrow>
                    load_columns padsz sample_size sample_arrays jkey columns
                      (feature_arrays @ [get_padded_array xss padsz (Some sample_size)])
                      (case mask_array of
                         None \<Rightarrow> Some (get_mask_array xss padsz (Some sample_size))
                       | Some m \<Rightarrow> Some m)
                | _ \<Rightarrow>
                    (case get_array arrays (Some sample_size) of
                       Inl e \<Rightarrow> Inl e
                     | Inr a \<Rightarrow>
                         load_columns padsz sample_size sample_arrays jkey columns
                           (feature_arrays @ [a]) mask_array))))"

text \<open>Lines 139--161, the loop over the jets of one feature type.\<close>

fun load_jets ::
  "nat \<Rightarrow> nat \<Rightarrow> ak_sample \<Rightarrow> string list \<Rightarrow> nat list \<Rightarrow> rat ndarray list \<Rightarrow> bool ndarray list
    \<Rightarrow> error + (rat ndarray list \<times> bool ndarray list)" where
  "load_jets padsz sample_size sample_arrays columns [] jet_feature_arrays jet_mask_arrays =
     Inr (jet_feature_arrays, jet_mask_arrays)"
| "load_jets padsz sample_size sample_arrays columns (i # is) jet_feature_arrays jet_mask_arrays =
     (case load_columns padsz sample_size sample_arrays (jet_key i) columns [] None of
        Inl e \<Rightarrow> Inl e
      | Inr (feature_arrays, mask_array) \<Rightarrow>
          (case np_stack_last feature_arrays of
             Inl e \<Rightarrow> Inl e
           | Inr stacked \<Rightarrow>
               load_jets padsz sample_size sample_arrays columns is
                 (jet_feature_arrays @ [stacked])
                 (case mask_array of
                    None \<Rightarrow> jet_mask_arrays
                  | Some m \<Rightarrow> jet_mask_arrays @ [m])))"

text \<open>\<^verbatim>\<open>features[feature_type].append(t)\<close>, after line 134--135 made the key exist.\<close>

definition append_feature ::
  "string \<Rightarrow> rat ndarray \<Rightarrow> (string \<times> rat ndarray list) list \<Rightarrow> (string \<times> rat ndarray list) list" where
  "append_feature feature_type t fs =
     (let fs1 = (if map_of fs feature_type = None then AList.update feature_type [] fs else fs)
      in AList.update feature_type
           ((case map_of fs1 feature_type of None \<Rightarrow> [] | Some ts \<Rightarrow> ts) @ [t]) fs1)"

text \<open>
  Lines 136--166, the body of the loop over the feature types: the stacked tensor of the
  feature type and, when a jet had a list-valued column, the stacked masks.
\<close>

definition load_feature_type ::
  "config \<Rightarrow> nat \<Rightarrow> ak_sample \<Rightarrow> string list \<Rightarrow> error + (rat ndarray \<times> bool ndarray option)" where
  "load_feature_type c sample_size sample_arrays columns =
     (case load_jets (pad_size c) sample_size sample_arrays columns [1..<num_jets c + 1] [] [] of
        Inl e \<Rightarrow> Inl e
      | Inr (jet_feature_arrays, jet_mask_arrays) \<Rightarrow>
          (case np_stack_axis1 jet_feature_arrays of
             Inl e \<Rightarrow> Inl e
           | Inr stacked \<Rightarrow>
               (if jet_mask_arrays \<noteq> []
                then (case np_stack_axis1 jet_mask_arrays of
                        Inl e \<Rightarrow> Inl e
                      | Inr m \<Rightarrow> Inr (stacked, Some m))
                else Inr (stacked, None))))"

text \<open>
  Lines 132--166, the loop over the feature types for one sample: \<open>fs\<close> is \<^verbatim>\<open>features\<close>
  and \<open>mask_arrays\<close> the variable of that name, which a later feature type with
  list-valued columns overwrites.
\<close>

fun load_feature_types ::
  "config \<Rightarrow> nat \<Rightarrow> ak_sample \<Rightarrow> (string \<times> string list) list
    \<Rightarrow> (string \<times> rat ndarray list) list \<Rightarrow> bool ndarray option
    \<Rightarrow> error + ((string \<times> rat ndarray list) list \<times> bool ndarray option)" where
  "load_feature_types c sample_size sample_arrays [] fs mask_arrays = Inr (fs, mask_arrays)"
| "load_feature_types c sample_size sample_arrays ((feature_type, columns) # rest) fs mask_arrays =
     (case load_feature_type c sample_size sample_arrays columns of
        Inl e \<Rightarrow> Inl e
      | Inr (stacked, jet_masks) \<Rightarrow>
          load_feature_types c sample_size sample_arrays rest
            (append_feature feature_type stacked fs)
            (case jet_masks of None \<Rightarrow> mask_arrays | Some m \<Rightarrow> Some m))"

text \<open>
  Lines 116--168: the body of the loop over the samples once \<^verbatim>\<open>sample_arrays\<close> is read
  from the cache. \<^verbatim>\<open>len(None)\<close> is a \<^verbatim>\<open>TypeError\<close>.
\<close>

definition add_class_size :: "int \<Rightarrow> nat \<Rightarrow> (int \<times> nat) list \<Rightarrow> (int \<times> nat) list" where
  "add_class_size class_val sample_size cs =
     (let cs1 = (if map_of cs class_val = None then AList.update class_val 0 cs else cs)
      in AList.update class_val
           ((case map_of cs1 class_val of None \<Rightarrow> 0 | Some n \<Rightarrow> n) + sample_size) cs1)"

text \<open>
  Lines 117--125, the number of events taken from a sample: \<^verbatim>\<open>sample_size\<close> starts as
  \<^verbatim>\<open>len(sample_arrays)\<close>; an override below it raises at line 122, so an override that
  is taken is at least the available count and in particular not negative.
\<close>

definition sample_size_of :: "config \<Rightarrow> string \<Rightarrow> ak_sample \<Rightarrow> error + nat" where
  "sample_size_of c sample sample_arrays =
     (let available = nevents sample_arrays in
      case map_of (sample_sizes c) sample of
        None \<Rightarrow> Inr available
      | Some requested \<Rightarrow>
          (if int available > requested
           then Inl (RuntimeError
             (''can not request more events than is available for the sample ''
               @ quoted sample @ '' (requested = '' @ str_int requested
               @ '', available = '' @ str_nat available))
           else Inr (nat requested)))"

text \<open>
  \<^verbatim>\<open>np.full(sample_size, class_val)\<close> stores the class value with dtype int64, which
  holds the integers from \<open>- 2 ^ 63\<close> to \<open>2 ^ 63 - 1\<close> as they are; the labels of the
  model are the class values themselves, so the model is that of \<^verbatim>\<open>load\<close> for class
  values of this range (\<open>int64\<close> below).
\<close>

definition prepare_sample ::
  "config \<Rightarrow> string \<Rightarrow> int \<Rightarrow> ak_sample option \<Rightarrow> locals \<Rightarrow> error + locals" where
  "prepare_sample c sample class_val cached loc =
     (case cached of
        None \<Rightarrow> Inl (TypeError ''object of type NoneType has no len()'')
      | Some sample_arrays \<Rightarrow>
          (case sample_size_of c sample sample_arrays of
             Inl e \<Rightarrow> Inl e
           | Inr sample_size \<Rightarrow>
               (case load_feature_types c sample_size sample_arrays (feature_dict c)
                       (features loc) None of
                  Inl e \<Rightarrow> Inl e
                | Inr (fs, mask_arrays) \<Rightarrow>
                    Inr \<lparr>features = fs,
                         labels = labels loc @ [replicate sample_size class_val],
                         masks = (case mask_arrays of
                                    None \<Rightarrow> masks loc
                                  | Some m \<Rightarrow> masks loc @ [m]),
                         class_sizes = add_class_size class_val sample_size (class_sizes loc)\<rparr>)))"

text \<open>Lines 113--168: one iteration of the loop over the samples.\<close>

definition load_sample ::
  "env \<Rightarrow> filenames \<Rightarrow> string \<Rightarrow> pcd \<Rightarrow> locals \<Rightarrow> (error + locals) \<times> pcd" where
  "load_sample ev fnames sample self loc =
     (case map_of (label_map (cfg self)) sample of
        None \<Rightarrow> (Inl (RuntimeError (''no class value defined for the sample '' @ quoted sample)), self)
      | Some class_val \<Rightarrow>
          (case load_sample_data ev fnames sample self of
             (Inl e, self1) \<Rightarrow> (Inl e, self1)
           | (Inr u, self1) \<Rightarrow>
               (prepare_sample (cfg self1) sample class_val (cache_sample_arrays self1) loc, self1)))"

fun load_samples ::
  "env \<Rightarrow> filenames \<Rightarrow> string list \<Rightarrow> pcd \<Rightarrow> locals \<Rightarrow> (error + locals) \<times> pcd" where
  "load_samples ev fnames [] self loc = (Inr loc, self)"
| "load_samples ev fnames (sample # samples) self loc =
     (case load_sample ev fnames sample self loc of
        (Inl e, self1) \<Rightarrow> (Inl e, self1)
      | (Inr loc1, self1) \<Rightarrow> load_samples ev fnames samples self1 loc1)"

text \<open>Lines 170--173: the feature types are concatenated in dictionary order.\<close>

fun concatenate_features ::
  "(string \<times> rat ndarray list) list \<Rightarrow> error + (string \<times> rat ndarray) list" where
  "concatenate_features [] = Inr []"
| "concatenate_features ((feature_type, ts) # rest) =
     (case np_concatenate ts of
        Inl e \<Rightarrow> Inl e
      | Inr t \<Rightarrow>
          (case concatenate_features rest of
             Inl e \<Rightarrow> Inl e
           | Inr r \<Rightarrow> Inr ((feature_type, t) # r)))"

text \<open>\<^verbatim>\<open>np.concatenate\<close> of one-dimensional arrays (line 174).\<close>

definition concatenate_labels :: "'a list list \<Rightarrow> error + 'a list" where
  "concatenate_labels ls =
     (if ls = [] then Inl (ValueError ''need at least one array to concatenate'')
      else Inr (concat ls))"

text \<open>Lines 169--183: concatenation and the consistency checks.\<close>

definition combine ::
  "locals \<Rightarrow> error + ((string \<times> rat ndarray) list \<times> int list \<times> bool ndarray option \<times> nat list)" where
  "combine loc =
     (case concatenate_features (features loc) of
        Inl e \<Rightarrow> Inl e
      | Inr fs \<Rightarrow>
          (let sizes = map (\<lambda>(feature_type, t). hd (shape t)) fs in
           case concatenate_labels (labels loc) of
             Inl e \<Rightarrow> Inl e
           | Inr ls \<Rightarrow>
               (if card (set sizes) \<noteq> 1
                then Inl (RuntimeError ''inconsistent sample size in different feature types'')
                else if hd sizes \<noteq> length ls
                then Inl (RuntimeError ''inconsistent sample size between features and labels'')
                else if masks loc \<noteq> []
                then (case np_concatenate (masks loc) of
                        Inl e \<Rightarrow> Inl e
                      | Inr m \<Rightarrow>
                          (if hd (shape m) = hd sizes then Inr (fs, ls, Some m, sizes)
                           else Inl AssertionError))
                else Inr (fs, ls, None, sizes))))"

text \<open>
  Reading a local variable that no assignment has bound yet raises
  \<^verbatim>\<open>UnboundLocalError\<close>.
\<close>

definition read_local :: "string \<Rightarrow> 'a option \<Rightarrow> error + 'a" where
  "read_local name v = (case v of None \<Rightarrow> Inl (UnboundLocalError name) | Some x \<Rightarrow> Inr x)"

fun shuffle_features ::
  "nat list \<Rightarrow> (string \<times> rat ndarray) list \<Rightarrow> error + (string \<times> rat ndarray) list" where
  "shuffle_features index [] = Inr []"
| "shuffle_features index ((feature_type, t) # rest) =
     (case take_rows t index of
        Inl e \<Rightarrow> Inl e
      | Inr t1 \<Rightarrow>
          (case shuffle_features index rest of
             Inl e \<Rightarrow> Inl e
           | Inr r \<Rightarrow> Inr ((feature_type, t1) # r)))"

text \<open>
  Lines 185--193, the body of \<^verbatim>\<open>if self.shuffle\<close>. \<open>weights\<close> is the local variable
  \<^verbatim>\<open>weights\<close> as it stands when line 191 reads it.
\<close>

definition shuffle_events ::
  "env \<Rightarrow> config \<Rightarrow> (string \<times> rat ndarray) list \<Rightarrow> int list \<Rightarrow> rat list option
    \<Rightarrow> bool ndarray option \<Rightarrow> nat list
    \<Rightarrow> error + ((string \<times> rat ndarray) list \<times> int list \<times> rat list \<times> bool ndarray option)" where
  "shuffle_events ev c fs ls weights ms sizes =
     (let index = random_shuffle ev (seed c) [0..<hd sizes] in
      case shuffle_features index fs of
        Inl e \<Rightarrow> Inl e
      | Inr fs1 \<Rightarrow>
          (case take_items ls index of
             Inl e \<Rightarrow> Inl e
           | Inr ls1 \<Rightarrow>
               (case read_local ''weights'' weights of
                  Inl e \<Rightarrow> Inl e
                | Inr w \<Rightarrow>
                    (case take_items w index of
                       Inl e \<Rightarrow> Inl e
                     | Inr w1 \<Rightarrow>
                         (case ms of
                            None \<Rightarrow> Inr (fs1, ls1, w1, None)
                          | Some m \<Rightarrow>
                              (case take_rows m index of
                                 Inl e \<Rightarrow> Inl e
                               | Inr m1 \<Rightarrow> Inr (fs1, ls1, w1, Some m1)))))))"

text \<open>
  Lines 196--199: \<^verbatim>\<open>weights = np.ones(labels.shape)\<close>, a float64 array, then every entry
  whose label is \<open>class_val\<close> is divided, in float64, by the size of that class.
\<close>

definition divide_class :: "env \<Rightarrow> int list \<Rightarrow> int \<times> nat \<Rightarrow> rat list \<Rightarrow> rat list" where
  "divide_class ev ls cs weights =
     map (\<lambda>(l, w). if l = fst cs then float_divide ev w (snd cs) else w) (zip ls weights)"

definition class_weights :: "env \<Rightarrow> (int \<times> nat) list \<Rightarrow> int list \<Rightarrow> rat list" where
  "class_weights ev sizes ls = fold (divide_class ev ls) sizes (replicate (length ls) 1)"

text \<open>
  Lines 169--201. Before line 184 no statement assigns \<^verbatim>\<open>weights\<close>, so the shuffle
  branch reads it unbound.
\<close>

definition assemble ::
  "env \<Rightarrow> config \<Rightarrow> locals
    \<Rightarrow> error + ((string \<times> tensor) list \<times> int ndarray \<times> rat ndarray)" where
  "assemble ev c loc =
     (case combine loc of
        Inl e \<Rightarrow> Inl e
      | Inr (fs, ls, ms, sizes) \<Rightarrow>
          (case (if shuffle c
                 then (case shuffle_events ev c fs ls None ms sizes of
                         Inl e \<Rightarrow> Inl e
                       | Inr (fs1, ls1, w1, ms1) \<Rightarrow> Inr (fs1, ls1, ms1))
                 else Inr (fs, ls, ms)) of
             Inl e \<Rightarrow> Inl e
           | Inr (fs1, ls1, ms1) \<Rightarrow>
               (let fd = map (\<lambda>(feature_type, t). (feature_type, Feat t)) fs1;
                    fd1 = (case ms1 of
                             None \<Rightarrow> fd
                           | Some m \<Rightarrow> AList.update ''part_masks'' (Mask m) fd);
                    weights = class_weights ev (class_sizes loc) ls1
                in Inr (fd1, expand_dims ls1, expand_dims weights))))"

definition locals0 :: locals where
  "locals0 = \<lparr>features = [], labels = [], masks = [], class_sizes = []\<rparr>"

definition load :: "env \<Rightarrow> filenames \<Rightarrow> string list option \<Rightarrow> pcd \<Rightarrow> (error + unit) \<times> pcd" where
  "load ev fnames samples self =
     (let self0 = clear_cache self;
          samples1 = (case samples of None \<Rightarrow> map fst (label_map (cfg self)) | Some ss \<Rightarrow> ss)
      in case load_samples ev fnames samples1 self0 locals0 of
           (Inl e, self1) \<Rightarrow> (Inl e, self1)
         | (Inr loc, self1) \<Rightarrow>
             (case assemble ev (cfg self1) loc of
                Inl e \<Rightarrow> (Inl e, self1)
              | Inr (fd, ls, ws) \<Rightarrow>
                  (Inr (), clear_cache (self1\<lparr>p_features := Some fd, p_labels := Some ls,
                                                p_weights := Some ws\<rparr>))))"

section \<open>The accessors\<close>

definition X :: "pcd \<Rightarrow> (string \<times> tensor) list option" where
  "X self = p_features self"

definition y :: "pcd \<Rightarrow> int ndarray option" where
  "y self = p_labels self"

definition weight :: "pcd \<Rightarrow> rat ndarray option" where
  "weight self = p_weights self"

text \<open>
  The property \<^verbatim>\<open>masks\<close> reads the attribute \<^verbatim>\<open>features\<close> of the instance. The class
  binds the feature dictionary to \<^verbatim>\<open>_features\<close> and to the property \<^verbatim>\<open>X\<close>; the other
  names its body and its methods define are listed in \<open>other_attributes\<close> (their values
  play no part here). Every other name is looked up in the base class
  \<^verbatim>\<open>quickstats.AbstractObject\<close>, which is outside the repository and given as \<open>base\<close>;
  a name nobody defines raises \<^verbatim>\<open>AttributeError\<close>.
\<close>

datatype py_value = PyFeatures "(string \<times> tensor) list option" | PyOther

definition other_attributes :: "string list" where
  "other_attributes =
     [''class_labels'', ''label_map'', ''feature_dict'', ''sample_sizes'', ''num_jets'',
      ''pad_size'', ''shuffle'', ''seed'', ''_labels'', ''_weights'', ''_masks'',
      ''cache_arrays'', ''cache_sample_arrays'',
      ''DEFAULT_FEATURE_DICT'', ''__init__'', ''__len__'', ''set_class_labels'', ''is_ragged'',
      ''get_padded_array'', ''get_array'', ''get_mask_array'', ''_load_sample_data'',
      ''clear_cache'', ''load'', ''y'', ''weight'', ''masks'', ''clear'']"

definition getattr_pcd :: "(string \<Rightarrow> py_value option) \<Rightarrow> pcd \<Rightarrow> string \<Rightarrow> error + py_value" where
  "getattr_pcd base self name =
     (if name = ''_features'' \<or> name = ''X'' then Inr (PyFeatures (p_features self))
      else if name \<in> set other_attributes then Inr PyOther
      else (case base name of None \<Rightarrow> Inl (AttributeError name) | Some v \<Rightarrow> Inr v))"

text \<open>
  \<^verbatim>\<open>self.features.get('part_masks', None)\<close>; \<^verbatim>\<open>None\<close> has no \<^verbatim>\<open>get\<close>, and the \<^verbatim>\<open>get\<close> of
  an object the model does not describe is reported as missing.
\<close>

definition masks_property :: "(string \<Rightarrow> py_value option) \<Rightarrow> pcd \<Rightarrow> error + tensor option" where
  "masks_property base self =
     (case getattr_pcd base self ''features'' of
        Inl e \<Rightarrow> Inl e
      | Inr v \<Rightarrow>
          (case v of
             PyFeatures (Some d) \<Rightarrow> Inr (map_of d ''part_masks'')
           | PyFeatures None \<Rightarrow> Inl (AttributeError ''get'')
           | PyOther \<Rightarrow> Inl (AttributeError ''get'')))"

section \<open>Notions used in the statements\<close>

text \<open>\<open>at2 a i k\<close> is \<^verbatim>\<open>a[i, k]\<close> for a two-dimensional array.\<close>

definition at2 :: "'a ndarray \<Rightarrow> nat \<Rightarrow> nat \<Rightarrow> 'a" where
  "at2 a i k = data a ! (i * (shape a ! 1) + k)"

text \<open>\<open>at3 a i j k\<close> is \<^verbatim>\<open>a[i, j, k]\<close> for a three-dimensional array.\<close>

definition at3 :: "'a ndarray \<Rightarrow> nat \<Rightarrow> nat \<Rightarrow> nat \<Rightarrow> 'a" where
  "at3 a i j k = data a ! ((i * (shape a ! 1) + j) * (shape a ! 2) + k)"

text \<open>The total weight of the events whose label is \<open>v\<close>.\<close>

definition class_total :: "int list \<Rightarrow> rat list \<Rightarrow> int \<Rightarrow> rat" where
  "class_total ls ws v = sum_list (map snd (filter (\<lambda>(l, w). l = v) (zip ls ws)))"

text \<open>
  What the samples contribute to a dataset. A contribution is a sample, its class value,
  the number of events taken from it and the record they are taken from; it is one of
  configuration \<open>c\<close> when the class value is the one \<^verbatim>\<open>label_map\<close> gives the sample and
  the number of events is the one lines 117--125 compute, size override included.
  \<open>contributed_labels\<close> are the labels of the events in the order of the contributions
  and \<open>class_events xs v\<close> is the number of events the samples of class \<open>v\<close> contribute.
  \<open>contributions_inv\<close> is the invariant of the loop over the samples: \<^verbatim>\<open>labels\<close> holds
  one block per contribution and \<^verbatim>\<open>class_sizes\<close> the events of every class.
\<close>

type_synonym contribution = "string \<times> int \<times> nat \<times> ak_sample"

definition contributes :: "config \<Rightarrow> contribution \<Rightarrow> bool" where
  "contributes c x =
     (case x of (sample, class_val, n, sample_arrays) \<Rightarrow>
        map_of (label_map c) sample = Some class_val \<and>
        sample_size_of c sample sample_arrays = Inr n)"

definition contributed_labels :: "contribution list \<Rightarrow> int list" where
  "contributed_labels xs = concat (map (\<lambda>(sample, class_val, n, sample_arrays). replicate n class_val) xs)"

definition class_events :: "contribution list \<Rightarrow> int \<Rightarrow> nat" where
  "class_events xs v =
     sum_list (map (\<lambda>(sample, class_val, n, sample_arrays). if class_val = v then n else 0) xs)"

definition contributions_inv :: "config \<Rightarrow> contribution list \<Rightarrow> locals \<Rightarrow> bool" where
  "contributions_inv c xs loc =
     ((\<forall>x\<in>set xs. contributes c x) \<and>
      labels loc = map (\<lambda>(sample, class_val, n, sample_arrays). replicate n class_val) xs \<and>
      distinct (map fst (class_sizes loc)) \<and>
      (\<forall>v. (case map_of (class_sizes loc) v of None \<Rightarrow> 0 | Some n \<Rightarrow> n) = class_events xs v))"

text \<open>The class values that dtype int64 holds.\<close>

definition int64 :: "int \<Rightarrow> bool" where
  "int64 v = (- (2 ^ 63) \<le> v \<and> v < 2 ^ 63)"

text \<open>
  What the loop over the samples computes when every sample is prepared from one fixed
  record \<open>first\<close> and \<open>names\<close> are the fields of the cached file: the reference the loop
  on a combined file is compared with.
\<close>

fun load_samples_from ::
  "config \<Rightarrow> string list \<Rightarrow> ak_sample \<Rightarrow> string list \<Rightarrow> locals \<Rightarrow> error + locals" where
  "load_samples_from c names first [] loc = Inr loc"
| "load_samples_from c names first (sample # samples) loc =
     (case map_of (label_map c) sample of
        None \<Rightarrow> Inl (RuntimeError (''no class value defined for the sample '' @ quoted sample))
      | Some class_val \<Rightarrow>
          (if sample \<notin> set names
           then Inl (RuntimeError (''dataset does not contain the sample '' @ quoted sample))
           else (case prepare_sample c sample class_val (Some first) loc of
                   Inl e \<Rightarrow> Inl e
                 | Inr loc1 \<Rightarrow> load_samples_from c names first samples loc1)))"

text \<open>
  A column of jet \<open>jkey\<close> that is present and list-valued, and a sample record in which
  some configured column of one of the jets \<open>j1 .. j<num_jets>\<close> is list-valued.
\<close>

definition column_is_ragged :: "ak_sample \<Rightarrow> string \<Rightarrow> string \<Rightarrow> bool" where
  "column_is_ragged sa jkey column =
     (case map_of (jets sa) jkey of
        None \<Rightarrow> False
      | Some jet \<Rightarrow> (case map_of jet column of None \<Rightarrow> False | Some arrays \<Rightarrow> is_ragged arrays))"

definition has_ragged :: "config \<Rightarrow> ak_sample \<Rightarrow> bool" where
  "has_ragged c sa =
     (\<exists>(ft, columns)\<in>set (feature_dict c). \<exists>i\<in>set [1..<num_jets c + 1].
        \<exists>column\<in>set columns. column_is_ragged sa (jet_key i) column)"

text \<open>
  \<open>sa\<close> is a record the loop over \<open>samples\<close> prepares a sample from: with a dictionary of
  file names, the file of one of the samples; with a single file name, the sub-record
  of the first sample.
\<close>

definition prepared_from :: "env \<Rightarrow> filenames \<Rightarrow> string list \<Rightarrow> ak_sample \<Rightarrow> bool" where
  "prepared_from ev fnames samples sa =
     (case fnames of
        Dict d \<Rightarrow>
          (\<exists>sample\<in>set samples.
             case map_of d sample of None \<Rightarrow> False | Some filename \<Rightarrow> read_sample ev filename = Inr sa)
      | Str filename \<Rightarrow>
          (case samples of
             [] \<Rightarrow> False
           | sample # rest \<Rightarrow>
               (case read_combined ev filename of
                  Inl e \<Rightarrow> False
                | Inr recs \<Rightarrow> map_of recs sample = Some sa))
      | Other \<Rightarrow> False)"

text \<open>
  The leading (event) axis of a published tensor, and the agreement of the event counts
  after concatenation: every feature group, and the mask when there is one, has as many
  events as there are labels.
\<close>

definition leading :: "tensor \<Rightarrow> nat" where
  "leading t = (case t of Feat a \<Rightarrow> hd (shape a) | Mask m \<Rightarrow> hd (shape m))"

definition counts_agree :: "(string \<times> rat ndarray) list \<Rightarrow> int list \<Rightarrow> bool ndarray list \<Rightarrow> bool" where
  "counts_agree fs ls ms =
     ((\<forall>t\<in>set (map snd fs). hd (shape t) = length ls) \<and>
      (case ms of
         [] \<Rightarrow> True
       | m0 # rest \<Rightarrow> (case np_concatenate ms of Inl e \<Rightarrow> False | Inr m \<Rightarrow> hd (shape m) = length ls)))"


text \<open>
  Where the mask of a feature type comes from. \<open>first_ragged jet columns\<close> is the first
  column among \<open>columns\<close> that holds variable-length lists in the record \<open>jet\<close>, and
  \<open>mask_sources sa columns js\<close> lists, in the order of \<open>js\<close>, the jets of the sample \<open>sa\<close>
  that have such a column, each with that column.
\<close>

fun first_ragged :: "(string \<times> column) list \<Rightarrow> string list \<Rightarrow> rat list list option" where
  "first_ragged jet [] = None"
| "first_ragged jet (column # columns) =
     (case map_of jet column of
        Some (Ragged xss) \<Rightarrow> Some xss
      | _ \<Rightarrow> first_ragged jet columns)"

fun mask_sources :: "ak_sample \<Rightarrow> string list \<Rightarrow> nat list \<Rightarrow> (nat \<times> rat list list) list" where
  "mask_sources sa columns [] = []"
| "mask_sources sa columns (i # js) =
     (case map_of (jets sa) (jet_key i) of
        None \<Rightarrow> mask_sources sa columns js
      | Some jet \<Rightarrow>
          (case first_ragged jet columns of
             None \<Rightarrow> mask_sources sa columns js
           | Some xss \<Rightarrow> (i, xss) # mask_sources sa columns js))"

section \<open>Example inputs\<close>

definition ex_sig :: ak_sample where
  "ex_sig = \<lparr>nevents = 3, jets =
     [(''j1'', [(''pt'', Ragged [[1, 2], [3], [4, 5, 6, 7]]), (''m'', Flat [10, 20, 30])]),
      (''j2'', [(''pt'', Ragged [[5], [6, 7], []]), (''eta'', Ragged [[1], [2, 2], []]),
                (''m'', Flat [11, 21, 31])])]\<rparr>"

definition ex_bkg :: ak_sample where
  "ex_bkg = \<lparr>nevents = 2, jets =
     [(''j1'', [(''pt'', Ragged [[9], [8, 8]]), (''eta'', Ragged [[1], [1, 1]]), (''m'', Flat [1, 2])]),
      (''j2'', [(''pt'', Ragged [[7], []]), (''m'', Flat [3, 4])])]\<rparr>"

definition ex_bkg3 :: ak_sample where
  "ex_bkg3 = \<lparr>nevents = 3, jets =
     [(''j1'', [(''pt'', Ragged [[9], [8, 8], [7, 7, 7]]), (''m'', Flat [1, 2, 3])]),
      (''j2'', [(''pt'', Ragged [[7], [], [6]]), (''m'', Flat [3, 4, 5])])]\<rparr>"

text \<open>A sample whose \<^verbatim>\<open>pt\<close> columns hold lists of the fixed size 3.\<close>

definition ex_reg :: ak_sample where
  "ex_reg = \<lparr>nevents = 2, jets =
     [(''j1'', [(''pt'', Regular 3 [[9, 9, 9], [8, 8, 8]]), (''m'', Flat [1, 2])]),
      (''j2'', [(''pt'', Regular 3 [[7, 7, 7], [6, 6, 6]]), (''m'', Flat [3, 4])])]\<rparr>"

text \<open>
  The division of the example environment: the quotient rounded to the nearest number
  with a significand of 53 bits, ties to even, as IEEE 754 binary64 rounds a quotient
  of magnitude between \<open>2 ^ - 1022\<close> and \<open>2 ^ 53\<close>. \<open>binade\<close> finds the scale that
  brings the magnitude into \<open>[2 ^ 52, 2 ^ 53)\<close>.
\<close>

definition round_half_even :: "rat \<Rightarrow> int" where
  "round_half_even x =
     (let f = \<lfloor>x\<rfloor>; r = x - of_int f
      in if r < 1 / 2 then f else if 1 / 2 < r then f + 1 else if even f then f else f + 1)"

fun binade :: "nat \<Rightarrow> rat \<Rightarrow> nat \<Rightarrow> nat" where
  "binade 0 x s = s"
| "binade (Suc fuel) x s = (if 2 ^ 52 \<le> x * 2 ^ s then s else binade fuel x (Suc s))"

definition float64 :: "rat \<Rightarrow> rat" where
  "float64 x =
     (if x = 0 then 0
      else (let s = binade 1074 \<bar>x\<bar> 0
            in sgn x * of_int (round_half_even (\<bar>x\<bar> * 2 ^ s)) / 2 ^ s))"

definition ex_env :: env where
  "ex_env = \<lparr>read_combined = (\<lambda>f. if f = ''all.parquet''
                                     then Inr [(''sig'', ex_sig), (''bkg'', ex_bkg3)]
                                     else Inl (OSError f)),
             read_sample = (\<lambda>f. if f = ''sig.parquet'' then Inr ex_sig
                                 else if f = ''bkg.parquet'' then Inr ex_bkg
                                 else if f = ''reg.parquet'' then Inr ex_reg
                                 else Inl (OSError f)),
             random_shuffle = (\<lambda>s index. rev index),
             float_divide = (\<lambda>w n. float64 (w / of_nat n))\<rparr>"

definition ex_files :: filenames where
  "ex_files = Dict [(''sig'', ''sig.parquet''), (''bkg'', ''bkg.parquet'')]"

definition ex_files_reg :: filenames where
  "ex_files_reg = Dict [(''sig'', ''sig.parquet''), (''bkg'', ''reg.parquet'')]"

definition ex_cfg :: config where
  "ex_cfg = \<lparr>feature_dict = [(''part_features'', [''pt'']), (''jet_features'', [''m''])],
             sample_sizes = [], label_map = [(''sig'', 1), (''bkg'', 0)],
             num_jets = 2, pad_size = 3, shuffle = False, seed = 2023\<rparr>"

definition ex_cfg_eta :: config where
  "ex_cfg_eta = ex_cfg\<lparr>feature_dict := [(''part_features'', [''pt'', ''eta''])]\<rparr>"

definition ex_cfg_pm :: config where
  "ex_cfg_pm = ex_cfg\<lparr>feature_dict := [(''part_masks'', [''pt''])]\<rparr>"

definition ex_cfg_jet :: config where
  "ex_cfg_jet = ex_cfg\<lparr>feature_dict := [(''jet_features'', [''m''])], sample_sizes := [(''sig'', 5)]\<rparr>"

text \<open>The object as \<^verbatim>\<open>__init__\<close> leaves it before it calls \<^verbatim>\<open>load\<close>.\<close>

definition ex_self :: "config \<Rightarrow> pcd" where
  "ex_self c = \<lparr>cfg = c, cache_arrays = None, cache_sample_arrays = None,
                p_features = Some [], p_labels = None, p_weights = None\<rparr>"

section \<open>Auxiliary facts\<close>

lemma clear_cache_fields:
  "cfg (clear_cache self) = cfg self"
  "p_features (clear_cache self) = p_features self"
  "p_labels (clear_cache self) = p_labels self"
  "p_weights (clear_cache self) = p_weights self"
  "cache_arrays (clear_cache self) = None"
  "cache_sample_arrays (clear_cache self) = None"
  by (simp_all add: clear_cache_def)

lemma get_array_not_ragged [simp]:
  "get_array (Flat xs) (Some n) = Inr \<lparr>shape = [length (take n xs)], data = take n xs\<rparr>"
  "get_array (Regular width rows) (Some n) = Inr (to_numpy (take n rows) width)"
  by (simp_all add: get_array_def slice_column_def ak_to_numpy_def)

lemma load_unfold:
  assumes "load_samples ev fnames
             (case samples of None \<Rightarrow> map fst (label_map (cfg self)) | Some ss \<Rightarrow> ss)
             (clear_cache self) locals0 = (r1, s1)"
  shows "load ev fnames samples self =
           (case r1 of
              Inl e \<Rightarrow> (Inl e, s1)
            | Inr loc \<Rightarrow>
                (case assemble ev (cfg s1) loc of
                   Inl e \<Rightarrow> (Inl e, s1)
                 | Inr (fd, ls, ws) \<Rightarrow>
                     (Inr (), clear_cache (s1\<lparr>p_features := Some fd, p_labels := Some ls,
                                                  p_weights := Some ws\<rparr>))))"
  using assms by (simp add: load_def Let_def clear_cache_fields split: sum.splits)


section \<open>The mask of a padded column\<close>

lemma nth_concat_uniform:
  "\<forall>r\<in>set rows. length r = w \<Longrightarrow> i < length rows \<Longrightarrow> k < w \<Longrightarrow> concat rows ! (i * w + k) = rows ! i ! k"
proof (induction rows arbitrary: i)
  case Nil
  then show ?case by simp
next
  case (Cons r rows)
  show ?case
  proof (cases i)
    case 0
    with Cons.prems show ?thesis by (simp add: nth_append)
  next
    case (Suc j)
    with Cons.prems have "concat rows ! (j * w + k) = rows ! j ! k"
      by (intro Cons.IH) auto
    with Suc Cons.prems show ?thesis by (simp add: nth_append)
  qed
qed

lemma pad_none_row_length:
  "r \<in> set (pad_none array target) \<Longrightarrow> length r = target"
  by (auto simp: pad_none_def)

lemma pad_none_missing:
  "i < length array \<Longrightarrow> k < target \<Longrightarrow> Option.is_none (pad_none array target ! i ! k) = (length (array ! i) \<le> k)"
  by (auto simp: pad_none_def nth_append)

lemma pad_none_has_missing:
  "list_ex (list_ex Option.is_none) (pad_none array target) = (\<exists>xs\<in>set array. length xs < target)"
  by (force simp: pad_none_def list_ex_iff Option.is_none_def not_le)

lemma to_numpy_mask_entries:
  assumes "\<exists>xs\<in>set rows. length xs < width"
  shows "shape (to_numpy_mask (pad_none rows width) width) = [length rows, width]"
    and "i < length rows \<Longrightarrow> k < width \<Longrightarrow>
         at2 (to_numpy_mask (pad_none rows width) width) i k = (length (rows ! i) \<le> k)"
proof -
  let ?p = "pad_none rows width"
  have m: "to_numpy_mask ?p width = to_numpy (map (map Option.is_none) ?p) width"
    using assms by (simp add: to_numpy_mask_def pad_none_has_missing)
  have len: "length ?p = length rows" by (simp add: pad_none_def)
  show "shape (to_numpy_mask ?p width) = [length rows, width]"
    using len by (simp add: m to_numpy_def)
  assume ik: "i < length rows" "k < width"
  have "concat (map (map Option.is_none) ?p) ! (i * width + k) = map (map Option.is_none) ?p ! i ! k"
    using ik len by (intro nth_concat_uniform) (auto simp: pad_none_row_length)
  also have "\<dots> = Option.is_none (?p ! i ! k)"
    using ik len pad_none_row_length[of "?p ! i" rows width] by simp
  also have "\<dots> = (length (rows ! i) \<le> k)"
    using ik by (rule pad_none_missing)
  finally show "at2 (to_numpy_mask ?p width) i k = (length (rows ! i) \<le> k)"
    by (simp add: m at2_def to_numpy_def)
qed


lemma get_mask_array_entries:
  assumes "rows = (case sample_size of None \<Rightarrow> array | Some n \<Rightarrow> take n array)"
  shows "if \<exists>xs\<in>set rows. length xs < width
         then shape (get_mask_array array width sample_size) = [length rows, width] \<and>
              (\<forall>i<length rows. \<forall>k<width.
                 at2 (get_mask_array array width sample_size) i k = (length (rows ! i) \<le> k))
         else get_mask_array array width sample_size = nomask"
proof -
  have g: "get_mask_array array width sample_size = to_numpy_mask (pad_none rows width) width"
    using assms by (simp add: get_mask_array_def split: option.splits)
  show ?thesis
  proof (cases "\<exists>xs\<in>set rows. length xs < width")
    case True
    then show ?thesis
      using to_numpy_mask_entries[OF True] by (simp add: g)
  next
    case False
    then show ?thesis
      by (simp add: g to_numpy_mask_def pad_none_has_missing)
  qed
qed

lemma length_concat_uniform:
  "\<forall>r\<in>set rows. length r = w \<Longrightarrow> length (concat rows) = length rows * w"
  by (induction rows) auto

lemma length_data_get_mask_array:
  assumes "shape (get_mask_array array width sample_size) \<noteq> []"
  shows "length (data (get_mask_array array width sample_size)) =
           hd (shape (get_mask_array array width sample_size)) * width"
proof -
  let ?rows = "case sample_size of None \<Rightarrow> array | Some n \<Rightarrow> take n array"
  let ?p = "pad_none ?rows width"
  have g: "get_mask_array array width sample_size = to_numpy_mask ?p width"
    by (simp add: get_mask_array_def split: option.splits)
  have ex: "list_ex (list_ex Option.is_none) ?p"
    using assms unfolding g to_numpy_mask_def by (auto simp: nomask_def split: if_splits)
  have m: "to_numpy_mask ?p width = to_numpy (map (map Option.is_none) ?p) width"
    using ex by (simp add: to_numpy_mask_def)
  have "length (concat (map (map Option.is_none) ?p)) = length (map (map Option.is_none) ?p) * width"
    by (rule length_concat_uniform) (auto simp: pad_none_row_length)
  then show ?thesis
    unfolding g m by (simp add: to_numpy_def)
qed

lemma row_2d:
  assumes "tl (shape a) = [w]" "length (data a) = n * w" "i < n"
  shows "length (row a i) = w" "k < w \<Longrightarrow> row a i ! k = data a ! (i * w + k)"
proof -
  have "(i + 1) * w \<le> n * w" using assms(3) by (intro mult_le_mono1) simp
  then have le: "i * w + w \<le> length (data a)" using assms(2) by (simp add: algebra_simps)
  show "length (row a i) = w"
    using le by (simp add: row_def assms(1))
  show "k < w \<Longrightarrow> row a i ! k = data a ! (i * w + k)"
    using le by (simp add: row_def assms(1))
qed

lemma stacked_masks_entries:
  assumes st: "np_stack_axis1 (map (\<lambda>array. get_mask_array array width sample_size) jet_arrays) = Inr M"
      and j: "j < length jet_arrays"
      and rows: "rows = (case sample_size of None \<Rightarrow> jet_arrays ! j | Some n \<Rightarrow> take n (jet_arrays ! j))"
      and i: "i < length rows" and k: "k < width"
  shows "at3 M i j k = (length (rows ! i) \<le> k)"
proof -
  let ?g = "\<lambda>array. get_mask_array array width sample_size"
  let ?ms = "map ?g jet_arrays"
  let ?s = "shape (hd ?ms)"
  have ne: "?ms \<noteq> []" using j by auto
  have la: "list_all (\<lambda>a. shape a = ?s) ?ms"
    using st ne unfolding np_stack_axis1_def
    by (cases "list_all (\<lambda>a. shape a = ?s) ?ms") simp_all
  obtain n0 rest where s: "?s = n0 # rest"
    using st ne la unfolding np_stack_axis1_def by (cases ?s) simp_all
  have M: "M = \<lparr>shape = n0 # length ?ms # rest,
                 data = concat (map (\<lambda>i. concat (map (\<lambda>a. row a i) ?ms)) [0..<n0])\<rparr>"
    using st ne la s unfolding np_stack_axis1_def by simp
  have shapes: "shape (?g array) = n0 # rest" if "array \<in> set jet_arrays" for array
    using la that s unfolding list_all_iff by auto
  have mj: "?g (jet_arrays ! j) \<noteq> nomask"
    using shapes[of "jet_arrays ! j"] j by (auto simp: nomask_def)
  note e = get_mask_array_entries[OF rows, of width]
  from e mj have short: "\<exists>xs\<in>set rows. length xs < width" by (auto split: if_splits)
  with e have shj: "shape (?g (jet_arrays ! j)) = [length rows, width]"
    and ent: "at2 (?g (jet_arrays ! j)) i k = (length (rows ! i) \<le> k)"
    using i k by (auto split: if_splits)
  have n0: "n0 = length rows" and rest: "rest = [width]"
    using shj shapes[of "jet_arrays ! j"] j by auto
  have len: "length (data (?g array)) = n0 * width" if "array \<in> set jet_arrays" for array
    using length_data_get_mask_array[of array width sample_size] shapes[OF that] by simp
  have tls: "tl (shape (?g array)) = [width]" if "array \<in> set jet_arrays" for array
    using shapes[OF that] rest by simp
  have i0: "i < n0" using i n0 by simp
  let ?block = "\<lambda>i. concat (map (\<lambda>a. row a i) ?ms)"
  have rl: "\<forall>r\<in>set (map (\<lambda>a. row a i') ?ms). length r = width" if "i' < n0" for i'
    using row_2d(1)[OF tls len that] by auto
  have bl: "\<forall>b\<in>set (map ?block [0..<n0]). length b = length jet_arrays * width"
  proof
    fix b assume "b \<in> set (map ?block [0..<n0])"
    then obtain i' where i': "i' < n0" "b = ?block i'" by auto
    from length_concat_uniform[OF rl[OF i'(1)]] i'(2) show "length b = length jet_arrays * width"
      by simp
  qed
  have jk: "j * width + k < length jet_arrays * width"
  proof -
    have "(j + 1) * width \<le> length jet_arrays * width" using j by (intro mult_le_mono1) simp
    with k show ?thesis by (simp add: algebra_simps)
  qed
  have "at3 M i j k = data M ! (i * (length jet_arrays * width) + (j * width + k))"
    by (simp add: at3_def M rest algebra_simps)
  also have "\<dots> = map ?block [0..<n0] ! i ! (j * width + k)"
    unfolding M using nth_concat_uniform[OF bl _ jk, of i] i0 by simp
  also have "\<dots> = concat (map (\<lambda>a. row a i) ?ms) ! (j * width + k)"
    using i0 by simp
  also have "\<dots> = map (\<lambda>a. row a i) ?ms ! j ! k"
    using nth_concat_uniform[OF rl[OF i0] _ k, of j] j by simp
  also have "\<dots> = row (?g (jet_arrays ! j)) i ! k"
    using j by simp
  also have "\<dots> = data (?g (jet_arrays ! j)) ! (i * width + k)"
    using row_2d(2)[OF tls len i0 k, of "jet_arrays ! j"] j by simp
  also have "\<dots> = at2 (?g (jet_arrays ! j)) i k"
    by (simp add: at2_def shj)
  finally show ?thesis using ent by simp
qed

lemma stacked_masks_shape:
  assumes st: "np_stack_axis1 (map (\<lambda>array. get_mask_array array width sample_size) jet_arrays) = Inr M"
      and j: "j < length jet_arrays"
      and rows: "rows = (case sample_size of None \<Rightarrow> jet_arrays ! j | Some n \<Rightarrow> take n (jet_arrays ! j))"
  shows "shape M = [length rows, length jet_arrays, width]"
proof -
  let ?g = "\<lambda>array. get_mask_array array width sample_size"
  let ?ms = "map ?g jet_arrays"
  let ?s = "shape (hd ?ms)"
  have ne: "?ms \<noteq> []" using j by auto
  have la: "list_all (\<lambda>a. shape a = ?s) ?ms"
    using st ne unfolding np_stack_axis1_def
    by (cases "list_all (\<lambda>a. shape a = ?s) ?ms") simp_all
  obtain n0 rest where s: "?s = n0 # rest"
    using st ne la unfolding np_stack_axis1_def by (cases ?s) simp_all
  have M: "M = \<lparr>shape = n0 # length ?ms # rest,
                 data = concat (map (\<lambda>i. concat (map (\<lambda>a. row a i) ?ms)) [0..<n0])\<rparr>"
    using st ne la s unfolding np_stack_axis1_def by simp
  have shapes: "shape (?g array) = n0 # rest" if "array \<in> set jet_arrays" for array
    using la that s unfolding list_all_iff by auto
  have mj: "?g (jet_arrays ! j) \<noteq> nomask"
    using shapes[of "jet_arrays ! j"] j by (auto simp: nomask_def)
  note e = get_mask_array_entries[OF rows, of width]
  from e mj have "shape (?g (jet_arrays ! j)) = [length rows, width]"
    by (auto split: if_splits)
  then have "n0 = length rows" "rest = [width]"
    using shapes[of "jet_arrays ! j"] j by auto
  then show ?thesis by (simp add: M)
qed

lemma first_ragged_None:
  "(first_ragged jet columns = None) =
     (\<forall>column\<in>set columns. \<not> (case map_of jet column of None \<Rightarrow> False | Some arrays \<Rightarrow> is_ragged arrays))"
  by (induction columns) (auto simp: is_ragged_def split: option.splits column.splits)

lemma mask_sources_jets:
  "map fst (mask_sources sa columns js) =
     filter (\<lambda>i. \<exists>column\<in>set columns. column_is_ragged sa (jet_key i) column) js"
proof (induction js)
  case Nil
  then show ?case by simp
next
  case (Cons i js)
  show ?case
  proof (cases "map_of (jets sa) (jet_key i)")
    case None
    then show ?thesis using Cons.IH by (simp add: column_is_ragged_def)
  next
    case (Some jet)
    show ?thesis
    proof (cases "first_ragged jet columns")
      case None
      then have "\<not> (\<exists>column\<in>set columns. column_is_ragged sa (jet_key i) column)"
        using Some by (simp add: first_ragged_None column_is_ragged_def)
      then show ?thesis using Cons.IH Some None by simp
    next
      case (Some xss)
      then have "first_ragged jet columns \<noteq> None" by simp
      then have "\<exists>column\<in>set columns. column_is_ragged sa (jet_key i) column"
        using \<open>map_of (jets sa) (jet_key i) = Some jet\<close>
        by (simp add: first_ragged_None column_is_ragged_def)
      then show ?thesis using Cons.IH Some \<open>map_of (jets sa) (jet_key i) = Some jet\<close> by simp
    qed
  qed
qed

lemma load_columns_mask_source:
  assumes "load_columns p n sa jkey columns fa m = Inr (fa', m')"
  shows "m' = (case m of
                 Some x \<Rightarrow> Some x
               | None \<Rightarrow>
                   (case map_of (jets sa) jkey of
                      None \<Rightarrow> None
                    | Some jet \<Rightarrow>
                        map_option (\<lambda>xss. get_mask_array xss p (Some n)) (first_ragged jet columns)))"
  using assms
proof (induction columns arbitrary: fa m)
  case Nil
  then show ?case by (auto split: option.splits)
next
  case (Cons column columns)
  from Cons.prems obtain jet arrays where
    j: "map_of (jets sa) jkey = Some jet" "map_of jet column = Some arrays"
    by (auto simp: getitem_def split: option.splits)
  show ?case
  proof (cases arrays)
    case (Flat xs)
    with j Cons.prems obtain a where
      run: "load_columns p n sa jkey columns (fa @ [a]) m = Inr (fa', m')"
      by (simp add: getitem_def)
    from Cons.IH[OF run] j Flat show ?thesis by (simp split: option.splits)
  next
    case (Regular width rows)
    with j Cons.prems obtain a where
      run: "load_columns p n sa jkey columns (fa @ [a]) m = Inr (fa', m')"
      by (simp add: getitem_def)
    from Cons.IH[OF run] j Regular show ?thesis by (simp split: option.splits)
  next
    case (Ragged xss)
    let ?m1 = "case m of None \<Rightarrow> Some (get_mask_array xss p (Some n)) | Some x \<Rightarrow> Some x"
    from Ragged j Cons.prems have
      run: "load_columns p n sa jkey columns (fa @ [get_padded_array xss p (Some n)]) ?m1 = Inr (fa', m')"
      by (simp add: getitem_def)
    from Cons.IH[OF run] j Ragged show ?thesis by (cases m) simp_all
  qed
qed

lemma load_jets_mask_sources:
  assumes "load_jets p n sa columns js jfa jma = Inr (jfa', jma')"
  shows "jma' = jma @ map (\<lambda>array. get_mask_array array p (Some n)) (map snd (mask_sources sa columns js))"
  using assms
proof (induction js arbitrary: jfa jma)
  case Nil
  then show ?case by simp
next
  case (Cons i js)
  from Cons.prems obtain fa m stacked where
    lc: "load_columns p n sa (jet_key i) columns [] None = Inr (fa, m)" and
    run: "load_jets p n sa columns js (jfa @ [stacked])
            (case m of None \<Rightarrow> jma | Some x \<Rightarrow> jma @ [x]) = Inr (jfa', jma')"
    by (auto split: sum.splits prod.splits)
  from load_columns_mask_source[OF lc] have
    m: "m = (case map_of (jets sa) (jet_key i) of
               None \<Rightarrow> None
             | Some jet \<Rightarrow>
                 map_option (\<lambda>xss. get_mask_array xss p (Some n)) (first_ragged jet columns))"
    by simp
  show ?case
    using Cons.IH[OF run] m by (auto split: option.splits)
qed

lemma load_feature_type_mask_sources:
  assumes "load_feature_type c n sa columns = Inr (T, Some M)"
  shows "np_stack_axis1 (map (\<lambda>array. get_mask_array array (pad_size c) (Some n))
           (map snd (mask_sources sa columns [1..<num_jets c + 1]))) = Inr M"
proof -
  from assms obtain jfa jma where
    lj: "load_jets (pad_size c) n sa columns [1..<num_jets c + 1] [] [] = Inr (jfa, jma)"
    unfolding load_feature_type_def by (auto split: sum.splits prod.splits)
  from load_jets_mask_sources[OF lj] have
    jma: "jma = map (\<lambda>array. get_mask_array array (pad_size c) (Some n))
                  (map snd (mask_sources sa columns [1..<num_jets c + 1]))"
    by simp
  from assms lj have "jma \<noteq> [] \<and> np_stack_axis1 jma = Inr M"
    unfolding load_feature_type_def by (auto split: sum.splits prod.splits if_splits)
  then show ?thesis unfolding jma by simp
qed

text \<open>
  C1 (as the code has it). The specification reads the mask as true at real data. The
  code takes numpy's \<^verbatim>\<open>.mask\<close>, which is true at the missing entries: for the slice
  \<open>rows\<close> that \<open>get_mask_array\<close> pads, when some row is shorter than the width the result
  is a \<open>length rows \<times> width\<close> array whose entry \<open>[i, k]\<close> is true iff row \<open>i\<close> has no
  \<open>k\<close>-th element, for widths above and below the longest row. And the mask tensor \<open>M\<close>
  that lines 139--166 of \<^verbatim>\<open>load\<close> build for a feature type of a sample has one index
  \<open>j\<close> per jet with a column of variable-length lists among the columns of the feature
  type, in the order of the jets: for the first such column of that jet, sliced to the
  sample size, \<open>M[i, j, k]\<close> is true iff event \<open>i\<close> has no \<open>k\<close>-th element.
\<close>

theorem get_mask_array_true_at_padding:
  "(rows = (case sample_size of None \<Rightarrow> array | Some n \<Rightarrow> take n array) \<and>
    (\<exists>xs\<in>set rows. length xs < width) \<longrightarrow>
      shape (get_mask_array array width sample_size) = [length rows, width] \<and>
      (\<forall>i<length rows. \<forall>k<width.
         at2 (get_mask_array array width sample_size) i k = (length (rows ! i) \<le> k))) \<and>
   (load_feature_type c n sa columns = Inr (T, Some M) \<and>
    srcs = mask_sources sa columns [1..<num_jets c + 1] \<longrightarrow>
      map fst srcs =
        filter (\<lambda>i. \<exists>column\<in>set columns. column_is_ragged sa (jet_key i) column) [1..<num_jets c + 1] \<and>
      (\<forall>j<length srcs.
         shape M = [length (take n (snd (srcs ! j))), length srcs, pad_size c] \<and>
         (\<forall>i<length (take n (snd (srcs ! j))). \<forall>k<pad_size c.
            at3 M i j k = (length (snd (srcs ! j) ! i) \<le> k))))"
proof -
  have a: "shape (get_mask_array array width sample_size) = [length rows, width] \<and>
      (\<forall>i<length rows. \<forall>k<width.
         at2 (get_mask_array array width sample_size) i k = (length (rows ! i) \<le> k))"
    if "rows = (case sample_size of None \<Rightarrow> array | Some n \<Rightarrow> take n array)"
      and "\<exists>xs\<in>set rows. length xs < width"
    using get_mask_array_entries[OF that(1), of width] that(2) by simp
  have b: "shape M = [length (take n (snd (srcs ! j))), length srcs, pad_size c] \<and>
       (\<forall>i<length (take n (snd (srcs ! j))). \<forall>k<pad_size c.
            at3 M i j k = (length (snd (srcs ! j) ! i) \<le> k))"
    if lf: "load_feature_type c n sa columns = Inr (T, Some M)"
      and srcs: "srcs = mask_sources sa columns [1..<num_jets c + 1]"
      and j: "j < length srcs"
    for j
  proof -
    let ?arrays = "map snd srcs"
    have st: "np_stack_axis1 (map (\<lambda>array. get_mask_array array (pad_size c) (Some n)) ?arrays) = Inr M"
      unfolding srcs by (rule load_feature_type_mask_sources[OF lf])
    have j': "j < length ?arrays" using j by simp
    have r: "take n (snd (srcs ! j)) = (case Some n of None \<Rightarrow> ?arrays ! j | Some n \<Rightarrow> take n (?arrays ! j))"
      using j by simp
    have sh: "shape M = [length (take n (snd (srcs ! j))), length srcs, pad_size c]"
      using stacked_masks_shape[OF st j' r] by simp
    have "at3 M i j k = (length (snd (srcs ! j) ! i) \<le> k)"
      if "i < length (take n (snd (srcs ! j)))" "k < pad_size c" for i k
      using stacked_masks_entries[OF st j' r that] that(1) by simp
    with sh show ?thesis by blast
  qed
  from a b mask_sources_jets[of sa columns "[1..<num_jets c + 1]"] show ?thesis by blast
qed

theorem get_mask_array_true_at_padding_witness:
  "shape (get_mask_array [[1, 2], [3], [4, 5, 6, 7 :: rat]] 3 None) = [3, 3] \<and>
   at2 (get_mask_array [[1, 2], [3], [4, 5, 6, 7 :: rat]] 3 None) 1 1 = True \<and>
   at2 (get_mask_array [[1, 2], [3], [4, 5, 6, 7 :: rat]] 3 None) 2 2 = False \<and>
   at2 (get_mask_array [[1, 2], [3], [4, 5, 6, 7 :: rat]] 5 None) 2 4 = True \<and>
   load_feature_type ex_cfg 3 ex_sig [''pt''] =
     Inr (fst (projr (load_feature_type ex_cfg 3 ex_sig [''pt''])),
          Some (the (snd (projr (load_feature_type ex_cfg 3 ex_sig [''pt'']))))) \<and>
   mask_sources ex_sig [''pt''] [1..<num_jets ex_cfg + 1] =
     [(1, [[1, 2], [3], [4, 5, 6, 7]]), (2, [[5], [6, 7], []])] \<and>
   shape (the (snd (projr (load_feature_type ex_cfg 3 ex_sig [''pt''])))) = [3, 2, 3] \<and>
   at3 (the (snd (projr (load_feature_type ex_cfg 3 ex_sig [''pt''])))) 0 1 2 = True \<and>
   at3 (the (snd (projr (load_feature_type ex_cfg 3 ex_sig [''pt''])))) 2 0 2 = False \<and>
   at3 (the (snd (projr (load_feature_type ex_cfg 3 ex_sig [''pt''])))) 1 0 1 = True"
proof -
  let ?a = "[[1, 2], [3], [4, 5, 6, 7 :: rat]]"
  let ?T = "fst (projr (load_feature_type ex_cfg 3 ex_sig [''pt'']))"
  let ?M = "the (snd (projr (load_feature_type ex_cfg 3 ex_sig [''pt''])))"
  let ?srcs = "[(1, ?a), (2, [[5], [6, 7], []])] :: (nat \<times> rat list list) list"
  have r: "?a = (case None of None \<Rightarrow> ?a | Some n \<Rightarrow> take n ?a)" by simp
  have s3: "\<exists>xs\<in>set ?a. length xs < 3" by simp
  have s5: "\<exists>xs\<in>set ?a. length xs < 5" by simp
  have lf: "load_feature_type ex_cfg 3 ex_sig [''pt''] = Inr (?T, Some ?M)"
    by code_simp
  have ms: "?srcs = mask_sources ex_sig [''pt''] [1..<num_jets ex_cfg + 1]"
    by code_simp
  have p: "pad_size ex_cfg = 3" by (simp add: ex_cfg_def)
  note t3 = get_mask_array_true_at_padding
    [where rows = ?a and sample_size = None and array = ?a and width = 3 and c = ex_cfg
       and n = 3 and sa = ex_sig and columns = "[''pt'']" and T = ?T and M = ?M and srcs = ?srcs]
  note t5 = get_mask_array_true_at_padding
    [where rows = ?a and sample_size = None and array = ?a and width = 5 and c = ex_cfg
       and n = 3 and sa = ex_sig and columns = "[''pt'']" and T = ?T and M = ?M and srcs = ?srcs]
  from t3 r s3 have a: "shape (get_mask_array ?a 3 None) = [3, 3] \<and>
      at2 (get_mask_array ?a 3 None) 1 1 = True \<and> at2 (get_mask_array ?a 3 None) 2 2 = False"
    by (simp add: nth_Cons')
  from t5 r s5 have b: "at2 (get_mask_array ?a 5 None) 2 4 = True"
    by (simp add: nth_Cons')
  from t3 lf ms have e: "\<forall>j<length ?srcs.
         shape ?M = [length (take 3 (snd (?srcs ! j))), length ?srcs, pad_size ex_cfg] \<and>
         (\<forall>i<length (take 3 (snd (?srcs ! j))). \<forall>k<pad_size ex_cfg.
            at3 ?M i j k = (length (snd (?srcs ! j) ! i) \<le> k))"
    by blast
  from e[rule_format, of 0] have e0:
    "shape ?M = [3, 2, 3] \<and> (\<forall>i<3. \<forall>k<3. at3 ?M i 0 k = (length (?a ! i) \<le> k))"
    by (simp add: p)
  from e[rule_format, of 1] have e1:
    "\<forall>i<3. \<forall>k<3. at3 ?M i 1 k = (length ([[5], [6, 7], [] :: rat list] ! i) \<le> k)"
    by (simp add: p)
  from e0 have c0: "shape ?M = [3, 2, 3] \<and> at3 ?M 2 0 2 = False \<and> at3 ?M 1 0 1 = True"
    by (simp add: nth_Cons')
  from e1 have c1: "at3 ?M 0 1 2 = True"
    by (simp add: nth_Cons')
  from a b c0 c1 lf ms[symmetric] show ?thesis by blast
qed

text \<open>
  C1 as stated fails: for one event with two particles padded to three slots the mask
  is false at slot 0, which holds a real particle, and true at slot 2, which is padding.
\<close>

theorem mask_polarity_counterexample:
  "at2 (get_mask_array [[1, 2 :: rat]] 3 None) 0 0 = False \<and> 0 < length [1, 2 :: rat] \<and>
   at2 (get_mask_array [[1, 2 :: rat]] 3 None) 0 2 = True \<and> \<not> 2 < length [1, 2 :: rat]"
  by (simp add: at2_def get_mask_array_def to_numpy_mask_def to_numpy_def pad_none_def)

section \<open>What a raising \<open>load\<close> leaves behind\<close>

lemma load_sample_data_frame:
  "load_sample_data ev fnames sample self = (r, self1) \<Longrightarrow>
     cfg self1 = cfg self \<and> p_features self1 = p_features self \<and>
     p_labels self1 = p_labels self \<and> p_weights self1 = p_weights self"
  by (auto simp: load_sample_data_def Let_def split: filenames.splits option.splits sum.splits if_splits)

lemma load_sample_frame:
  "load_sample ev fnames sample self loc = (r, self1) \<Longrightarrow>
     cfg self1 = cfg self \<and> p_features self1 = p_features self \<and>
     p_labels self1 = p_labels self \<and> p_weights self1 = p_weights self"
  by (auto simp: load_sample_def split: option.splits prod.splits sum.splits dest: load_sample_data_frame)

lemma load_samples_frame:
  "load_samples ev fnames samples self loc = (r, self1) \<Longrightarrow>
     cfg self1 = cfg self \<and> p_features self1 = p_features self \<and>
     p_labels self1 = p_labels self \<and> p_weights self1 = p_weights self"
proof (induction samples arbitrary: self loc)
  case Nil
  then show ?case by simp
next
  case (Cons s samples)
  obtain r1 s1 where st: "load_sample ev fnames s self loc = (r1, s1)" by (cases "load_sample ev fnames s self loc")
  note fr = load_sample_frame[OF st]
  show ?case
  proof (cases r1)
    case (Inl e)
    with Cons.prems st fr show ?thesis by simp
  next
    case (Inr loc1)
    with Cons.prems st have "load_samples ev fnames samples s1 loc1 = (r, self1)" by simp
    from Cons.IH[OF this] fr show ?thesis by simp
  qed
qed


lemma load_sample_prepare:
  assumes "load_sample ev fnames sample self loc = (Inr loc1, self1)"
  shows "\<exists>cv. map_of (label_map (cfg self)) sample = Some cv \<and>
              prepare_sample (cfg self) sample cv (cache_sample_arrays self1) loc = Inr loc1"
proof -
  from assms obtain cv where cv: "map_of (label_map (cfg self)) sample = Some cv"
    by (auto simp: load_sample_def split: option.splits)
  obtain r s1 where d: "load_sample_data ev fnames sample self = (r, s1)"
    by (cases "load_sample_data ev fnames sample self")
  have "cfg s1 = cfg self" using load_sample_data_frame[OF d] by simp
  with assms cv d show ?thesis
    by (auto simp: load_sample_def split: sum.splits)
qed

lemma load_samples_invariant:
  assumes "load_samples ev fnames samples self loc = (Inr loc1, self1)" "P loc"
      and "\<And>sample cv cached l l1. prepare_sample (cfg self) sample cv cached l = Inr l1 \<Longrightarrow> P l \<Longrightarrow> P l1"
  shows "P loc1"
  using assms
proof (induction samples arbitrary: self loc)
  case Nil
  then show ?case by simp
next
  case (Cons s samples)
  obtain r1 s1 where st: "load_sample ev fnames s self loc = (r1, s1)"
    by (cases "load_sample ev fnames s self loc")
  from Cons.prems(1) st obtain loc2 where r1: "r1 = Inr loc2" by (cases r1) auto
  with Cons.prems(1) st have run: "load_samples ev fnames samples s1 loc2 = (Inr loc1, self1)" by simp
  have c: "cfg s1 = cfg self" using load_sample_frame[OF st] by simp
  have "P loc2" using load_sample_prepare[OF st[unfolded r1]] Cons.prems(2,3) by blast
  from Cons.IH[OF run this] Cons.prems(3) c show ?case by simp
qed

lemma load_sample_dict:
  assumes "load_sample ev (Dict d) sample self loc = (Inr loc1, self1)"
      and "map_of d sample = Some filename" "read_sample ev filename = Inr sa"
  shows "\<exists>cv. prepare_sample (cfg self) sample cv (Some sa) loc = Inr loc1"
  using assms
  by (auto simp: load_sample_def load_sample_data_def split: option.splits sum.splits)

lemma load_sample_str_cold:
  assumes "load_sample ev (Str filename) sample self loc = (Inr loc1, self1)"
      and "cache_arrays self = None" "read_combined ev filename = Inr file" "map_of file sample = Some sa"
  shows "\<exists>cv. prepare_sample (cfg self) sample cv (Some sa) loc = Inr loc1"
  using assms
  by (auto simp: load_sample_def load_sample_data_def getitem_def Let_def split: option.splits sum.splits)

lemma load_samples_prepared:
  assumes "load_samples ev fnames samples self loc = (Inr loc1, self1)"
      and "prepared_from ev fnames samples sa" "cache_arrays self = None"
      and step: "\<And>sample cv cached l l1. prepare_sample (cfg self) sample cv cached l = Inr l1 \<Longrightarrow> Q l \<Longrightarrow> Q l1"
      and hit: "\<And>sample cv l l1. prepare_sample (cfg self) sample cv (Some sa) l = Inr l1 \<Longrightarrow> Q l1"
  shows "Q loc1"
proof (cases fnames)
  case (Str filename)
  with assms(2) obtain sample rest recs where
    s: "samples = sample # rest" "read_combined ev filename = Inr recs" "map_of recs sample = Some sa"
    by (auto simp: prepared_from_def split: list.splits sum.splits)
  obtain r1 s1 where st: "load_sample ev fnames sample self loc = (r1, s1)"
    by (cases "load_sample ev fnames sample self loc")
  from assms(1) st s obtain loc2 where r1: "r1 = Inr loc2" by (cases r1) auto
  with assms(1) st s have run: "load_samples ev fnames rest s1 loc2 = (Inr loc1, self1)" by simp
  have c: "cfg s1 = cfg self" using load_sample_frame[OF st] by simp
  have "Q loc2" using load_sample_str_cold[OF st[unfolded r1 Str] assms(3) s(2,3)] hit by blast
  then show ?thesis using load_samples_invariant[OF run, of Q] step c by simp
next
  case (Dict d)
  with assms(2) obtain sample filename where
    m: "sample \<in> set samples" "map_of d sample = Some filename" "read_sample ev filename = Inr sa"
    by (auto simp: prepared_from_def split: option.splits)
  from assms(1) m(1) step hit show ?thesis
  proof (induction samples arbitrary: self loc)
    case Nil
    then show ?case by simp
  next
    case (Cons s samples)
    obtain r1 s1 where st: "load_sample ev fnames s self loc = (r1, s1)"
      by (cases "load_sample ev fnames s self loc")
    from Cons.prems(1) st obtain loc2 where r1: "r1 = Inr loc2" by (cases r1) auto
    with Cons.prems(1) st have run: "load_samples ev fnames samples s1 loc2 = (Inr loc1, self1)" by simp
    have c: "cfg s1 = cfg self" using load_sample_frame[OF st] by simp
    show ?case
    proof (cases "s = sample")
      case True
      have "Q loc2" using load_sample_dict[OF st[unfolded r1 Dict True] m(2,3)] Cons.prems(4) by blast
      then show ?thesis using load_samples_invariant[OF run, of Q] Cons.prems(3) c by simp
    next
      case False
      with Cons.prems(2) have "sample \<in> set samples" by simp
      from Cons.IH[OF run this] Cons.prems(3,4) c show ?thesis by simp
    qed
  qed
next
  case Other
  with assms(2) show ?thesis by (simp add: prepared_from_def)
qed

text \<open>
  C6 (as the code has it). Whenever \<open>load\<close> raises, the published \<open>_features\<close>,
  \<open>_labels\<close> and \<open>_weights\<close> are unchanged, and whenever \<open>load\<close> returns normally the
  cache is cleared. (Nothing clears the cache on an error path.)
\<close>

theorem load_raise_keeps_published:
  "(\<forall>e. fst (load ev fnames samples self) = Inl e \<longrightarrow>
      p_features (snd (load ev fnames samples self)) = p_features self \<and>
      p_labels (snd (load ev fnames samples self)) = p_labels self \<and>
      p_weights (snd (load ev fnames samples self)) = p_weights self) \<and>
   (fst (load ev fnames samples self) = Inr () \<longrightarrow>
      cache_arrays (snd (load ev fnames samples self)) = None \<and>
      cache_sample_arrays (snd (load ev fnames samples self)) = None)"
proof -
  let ?ss = "case samples of None \<Rightarrow> map fst (label_map (cfg self)) | Some ss \<Rightarrow> ss"
  obtain r1 s1 where st: "load_samples ev fnames ?ss (clear_cache self) locals0 = (r1, s1)"
    by (cases "load_samples ev fnames ?ss (clear_cache self) locals0")
  have fr: "p_features s1 = p_features self \<and> p_labels s1 = p_labels self \<and> p_weights s1 = p_weights self"
    using load_samples_frame[OF st] by (simp add: clear_cache_fields)
  show ?thesis
    unfolding load_unfold[OF st] using fr
    by (auto simp: clear_cache_fields split: sum.splits prod.splits)
qed


theorem load_raise_keeps_published_witness:
  "fst (load ex_env ex_files (Some [''sig'', ''data'']) (ex_self ex_cfg)) =
     Inl (RuntimeError (''no class value defined for the sample '' @ quoted ''data'')) \<and>
   p_features (snd (load ex_env ex_files (Some [''sig'', ''data'']) (ex_self ex_cfg))) = Some [] \<and>
   p_labels (snd (load ex_env ex_files (Some [''sig'', ''data'']) (ex_self ex_cfg))) = None \<and>
   p_weights (snd (load ex_env ex_files (Some [''sig'', ''data'']) (ex_self ex_cfg))) = None \<and>
   fst (load ex_env ex_files None (ex_self ex_cfg)) = Inr () \<and>
   cache_arrays (snd (load ex_env ex_files None (ex_self ex_cfg))) = None \<and>
   cache_sample_arrays (snd (load ex_env ex_files None (ex_self ex_cfg))) = None"
proof -
  have a: "fst (load ex_env ex_files (Some [''sig'', ''data'']) (ex_self ex_cfg)) =
             Inl (RuntimeError (''no class value defined for the sample '' @ quoted ''data''))"
    by code_simp
  have b: "fst (load ex_env ex_files None (ex_self ex_cfg)) = Inr ()"
    by code_simp
  show ?thesis
    using a b
      load_raise_keeps_published [of ex_env ex_files "Some [''sig'', ''data'']" "ex_self ex_cfg"]
      load_raise_keeps_published [of ex_env ex_files None "ex_self ex_cfg"]
    by (simp add: ex_self_def)
qed

text \<open>
  C6 as stated fails: the second sample has no class value, \<open>load\<close> raises, and the
  cache still holds the record of the first sample.
\<close>

theorem cache_survives_raise_counterexample:
  "fst (load ex_env ex_files (Some [''sig'', ''data'']) (ex_self ex_cfg)) =
     Inl (RuntimeError (''no class value defined for the sample '' @ quoted ''data'')) \<and>
   cache_arrays (snd (load ex_env ex_files (Some [''sig'', ''data'']) (ex_self ex_cfg))) =
     Some (Single ex_sig) \<and>
   cache_sample_arrays (snd (load ex_env ex_files (Some [''sig'', ''data'']) (ex_self ex_cfg))) =
     Some ex_sig"
  by code_simp

section \<open>One combined file for several samples\<close>

lemma load_sample_data_warm:
  "cache_arrays self = Some c \<Longrightarrow>
   load_sample_data ev (Str filename) sample self =
     (if sample \<notin> set (ak_fields c)
      then Inl (RuntimeError (''dataset does not contain the sample '' @ quoted sample))
      else Inr (), self)"
  by (simp add: load_sample_data_def)

lemma load_samples_warm:
  "cache_arrays self = Some c \<Longrightarrow> cache_sample_arrays self = Some first \<Longrightarrow>
   load_samples ev (Str filename) samples self loc =
     (load_samples_from (cfg self) (ak_fields c) first samples loc, self)"
proof (induction samples arbitrary: loc)
  case Nil
  then show ?case by simp
next
  case (Cons s samples)
  show ?case
    using Cons.prems Cons.IH[OF Cons.prems]
    by (simp add: load_sample_def load_sample_data_warm split: option.splits sum.splits)
qed


text \<open>
  C8. With a single file name, \<open>load\<close> reads the file for the first sample and caches the
  sub-record of that sample; for every later sample \<open>_load_sample_data\<close> returns early
  and leaves the cache as it is, so the loop prepares every later sample from the first
  sample's sub-record.
\<close>

theorem str_filenames_reuse_first_sample:
  assumes "read_combined ev filename = Inr file"
      and "map_of file first_sample = Some first"
      and "map_of (label_map (cfg self)) first_sample = Some class_val"
  shows "load_samples ev (Str filename) (first_sample # samples) (clear_cache self) loc =
     (case prepare_sample (cfg self) first_sample class_val (Some first) loc of
        Inl e \<Rightarrow> Inl e
      | Inr loc1 \<Rightarrow> load_samples_from (cfg self) (map fst file) first samples loc1,
      self\<lparr>cache_arrays := Some (Combined file), cache_sample_arrays := Some first\<rparr>)"
proof -
  let ?s1 = "self\<lparr>cache_arrays := Some (Combined file), cache_sample_arrays := Some first\<rparr>"
  have d: "load_sample_data ev (Str filename) first_sample (clear_cache self) = (Inr (), ?s1)"
    using assms by (simp add: load_sample_data_def clear_cache_def getitem_def)
  have w: "load_samples ev (Str filename) samples ?s1 loc1 =
             (load_samples_from (cfg self) (map fst file) first samples loc1, ?s1)" for loc1
    using load_samples_warm[of ?s1 "Combined file" first ev filename samples loc1]
    by (simp add: ak_fields_def)
  show ?thesis
    using assms(3) d w
    by (simp add: load_sample_def clear_cache_fields split: sum.splits)
qed


theorem str_filenames_reuse_first_sample_witness:
  "load_samples ex_env (Str ''all.parquet'') [''sig'', ''bkg''] (clear_cache (ex_self ex_cfg)) locals0 =
     (case prepare_sample (cfg (ex_self ex_cfg)) ''sig'' 1 (Some ex_sig) locals0 of
        Inl e \<Rightarrow> Inl e
      | Inr loc1 \<Rightarrow>
          load_samples_from (cfg (ex_self ex_cfg))
            (map fst [(''sig'', ex_sig), (''bkg'', ex_bkg3)]) ex_sig [''bkg''] loc1,
      (ex_self ex_cfg)\<lparr>cache_arrays := Some (Combined [(''sig'', ex_sig), (''bkg'', ex_bkg3)]),
                        cache_sample_arrays := Some ex_sig\<rparr>)"
proof -
  have a: "read_combined ex_env ''all.parquet'' = Inr [(''sig'', ex_sig), (''bkg'', ex_bkg3)]"
    by (simp add: ex_env_def)
  have b: "map_of [(''sig'', ex_sig), (''bkg'', ex_bkg3)] ''sig'' = Some ex_sig"
    by simp
  have c: "map_of (label_map (cfg (ex_self ex_cfg))) ''sig'' = Some 1"
    by (simp add: ex_self_def ex_cfg_def)
  show ?thesis
    by (rule str_filenames_reuse_first_sample [OF a b c])
qed

section \<open>Shuffling\<close>

text \<open>
  C2 fails on the code: with \<^verbatim>\<open>shuffle=True\<close> line 191 reads the local variable
  \<^verbatim>\<open>weights\<close> five lines before line 196 assigns it, and \<open>load\<close> raises
  \<^verbatim>\<open>UnboundLocalError\<close> instead of publishing a shuffled dataset.
\<close>

theorem load_shuffle_raises:
  "fst (load ex_env ex_files None (ex_self (ex_cfg\<lparr>shuffle := True\<rparr>))) =
     Inl (UnboundLocalError ''weights'')"
  by code_simp

section \<open>Sample size overrides\<close>

text \<open>
  C3 fails on the code: line 122 compares the wrong way round. A request for 2 of the 3
  available events raises the error whose message speaks of requesting more than is
  available, and a request for 5 of 3 passes the check, so that 5 labels meet 3 events.
\<close>

theorem load_size_override_inverted:
  "fst (load ex_env ex_files (Some [''sig''])
          (ex_self (ex_cfg\<lparr>sample_sizes := [(''sig'', 2)]\<rparr>))) =
     Inl (RuntimeError (''can not request more events than is available for the sample ''
            @ quoted ''sig'' @ '' (requested = 2, available = 3'')) \<and>
   fst (load ex_env ex_files (Some [''sig''])
          (ex_self (ex_cfg\<lparr>sample_sizes := [(''sig'', 5)]\<rparr>))) =
     Inl (RuntimeError ''inconsistent sample size between features and labels'')"
  by code_simp

section \<open>A column missing from a jet\<close>

lemma load_columns_first_missing:
  assumes "map_of (jets sa) jkey = Some jet" "\<exists>column\<in>set columns. map_of jet column = None"
  shows "load_columns p n sa jkey columns fa m =
           Inl (FieldNotFoundError (hd (filter (\<lambda>column. map_of jet column = None) columns)))"
  using assms
proof (induction columns arbitrary: fa m)
  case Nil
  then show ?case by simp
next
  case (Cons column columns)
  show ?case
  proof (cases "map_of jet column")
    case None
    with Cons.prems show ?thesis by (simp add: getitem_def)
  next
    case (Some arrays)
    with Cons.prems have ex: "\<exists>column\<in>set columns. map_of jet column = None" by auto
    show ?thesis
      using Some Cons.prems(1) Cons.IH[OF Cons.prems(1) ex]
      by (cases arrays) (simp_all add: getitem_def)
  qed
qed

lemma load_jets_raises:
  assumes "i \<in> set js" "load_columns p n sa (jet_key i) columns [] None = Inl e0"
  shows "\<exists>e. load_jets p n sa columns js jfa jma = Inl e"
  using assms
proof (induction js arbitrary: jfa jma)
  case Nil
  then show ?case by simp
next
  case (Cons j js)
  show ?case
  proof (cases "j = i")
    case True
    with Cons.prems show ?thesis by simp
  next
    case False
    with Cons.prems have "i \<in> set js" by simp
    from Cons.IH[OF this Cons.prems(2)] show ?thesis
      by (auto split: sum.splits prod.splits)
  qed
qed

lemma load_feature_types_raises:
  assumes "(ft, columns) \<in> set groups"
      and "\<exists>e. load_feature_type c n sa columns = Inl e"
  shows "\<exists>e. load_feature_types c n sa groups fs M = Inl e"
  using assms(1)
proof (induction groups arbitrary: fs M)
  case Nil
  then show ?case by simp
next
  case (Cons g groups)
  obtain ft' columns' where g: "g = (ft', columns')" by (cases g)
  show ?case
  proof (cases "g = (ft, columns)")
    case True
    then show ?thesis using assms(2) g by auto
  next
    case False
    with Cons.prems have "(ft, columns) \<in> set groups" by simp
    from Cons.IH[OF this] show ?thesis
      unfolding g by (auto split: sum.splits prod.splits)
  qed
qed

lemma prepare_sample_missing_column:
  assumes "(ft, columns) \<in> set (feature_dict c)" "column \<in> set columns"
      and "1 \<le> i" "i \<le> num_jets c"
      and "map_of (jets sa) (jet_key i) = Some jet" "map_of jet column = None"
  shows "\<exists>e. prepare_sample c sample cv (Some sa) loc = Inl e"
proof -
  have ex: "\<exists>column\<in>set columns. map_of jet column = None" using assms(2,6) by blast
  have i: "i \<in> set [1..<num_jets c + 1]" using assms(3,4) by auto
  have "\<exists>e. load_jets (pad_size c) n sa columns [1..<num_jets c + 1] [] [] = Inl e" for n
    using load_jets_raises[OF i load_columns_first_missing[OF assms(5) ex]] .
  then have "\<exists>e. load_feature_type c n sa columns = Inl e" for n
    unfolding load_feature_type_def by (metis (no_types, lifting) sum.case(1))
  then have "\<exists>e. load_feature_types c n sa (feature_dict c) fs M = Inl e" for n fs M
    using load_feature_types_raises[OF assms(1)] by blast
  then show ?thesis
    by (auto simp: prepare_sample_def Let_def split: option.splits sum.splits prod.splits) (metis Inl_Inr_False)+
qed

lemma load_samples_prepared_raises:
  assumes "prepared_from ev fnames samples sa" "cache_arrays self = None"
      and "\<And>sample cv l. \<exists>e. prepare_sample (cfg self) sample cv (Some sa) l = Inl e"
  shows "\<exists>e. fst (load_samples ev fnames samples self loc) = Inl e"
proof (cases "load_samples ev fnames samples self loc")
  case (Pair r s1)
  show ?thesis
  proof (cases r)
    case (Inl e)
    with Pair show ?thesis by simp
  next
    case (Inr loc1)
    have "False"
      using load_samples_prepared[OF Pair[unfolded Inr] assms(1,2), of "\<lambda>l. False"] assms(3)
      by (metis Inl_Inr_False)
    then show ?thesis ..
  qed
qed


text \<open>
  C7 (as the code has it). When a feature group lists a column that is absent from the
  record of one of the jets \<open>j1 .. j<num_jets>\<close> of a record \<open>load\<close> prepares a sample
  from, \<open>load\<close> raises. The lookup of the first absent column of that jet raises the
  field-not-found error of the array library, which carries the name of that column
  only: the source adds no check and no message of its own.
\<close>

theorem load_missing_column_raises:
  assumes "prepared_from ev fnames
             (case samples of None \<Rightarrow> map fst (label_map (cfg self)) | Some ss \<Rightarrow> ss) sa"
      and "(ft, columns) \<in> set (feature_dict (cfg self))" and "column \<in> set columns"
      and "1 \<le> i" and "i \<le> num_jets (cfg self)"
      and "map_of (jets sa) (jet_key i) = Some jet" and "map_of jet column = None"
  shows "(\<exists>e. fst (load ev fnames samples self) = Inl e) \<and>
         load_columns (pad_size (cfg self)) n sa (jet_key i) columns [] None =
           Inl (FieldNotFoundError (hd (filter (\<lambda>column. map_of jet column = None) columns)))"
proof -
  let ?ss = "case samples of None \<Rightarrow> map fst (label_map (cfg self)) | Some ss \<Rightarrow> ss"
  have p: "\<exists>e. prepare_sample (cfg (clear_cache self)) sample cv (Some sa) l = Inl e" for sample cv l
    using prepare_sample_missing_column[OF assms(2-7)] by (simp add: clear_cache_fields)
  obtain r1 s1 where st: "load_samples ev fnames ?ss (clear_cache self) locals0 = (r1, s1)"
    by (cases "load_samples ev fnames ?ss (clear_cache self) locals0")
  from load_samples_prepared_raises[OF assms(1) _ p, of locals0] st obtain e where "r1 = Inl e"
    by (auto simp: clear_cache_fields)
  then have a: "\<exists>e. fst (load ev fnames samples self) = Inl e"
    unfolding load_unfold[OF st] by simp
  have ex: "\<exists>column\<in>set columns. map_of jet column = None" using assms(3,7) by blast
  show ?thesis using a load_columns_first_missing[OF assms(6) ex] by simp
qed

theorem load_missing_column_raises_witness:
  "(\<exists>e. fst (load ex_env ex_files (Some [''sig'']) (ex_self ex_cfg_eta)) = Inl e) \<and>
   load_columns 3 3 ex_sig ''j1'' [''pt'', ''eta''] [] None = Inl (FieldNotFoundError ''eta'')"
proof -
  have k: "jet_key (Suc 0) = ''j1''" by code_simp
  have a: "prepared_from ex_env ex_files
             (case Some [''sig''] of None \<Rightarrow> map fst (label_map (cfg (ex_self ex_cfg_eta))) | Some ss \<Rightarrow> ss)
             ex_sig"
    by (simp add: prepared_from_def ex_files_def ex_env_def)
  have b: "(''part_features'', [''pt'', ''eta'']) \<in> set (feature_dict (cfg (ex_self ex_cfg_eta)))"
    by (simp add: ex_self_def ex_cfg_eta_def ex_cfg_def)
  have c: "''eta'' \<in> set [''pt'', ''eta'']" by simp
  have d: "(1::nat) \<le> 1" by simp
  have e: "1 \<le> num_jets (cfg (ex_self ex_cfg_eta))"
    by (simp add: ex_self_def ex_cfg_eta_def ex_cfg_def)
  have f: "map_of (jets ex_sig) (jet_key 1) =
             Some [(''pt'', Ragged [[1, 2], [3], [4, 5, 6, 7]]), (''m'', Flat [10, 20, 30])]"
    by (simp add: k ex_sig_def)
  have g: "map_of [(''pt'', Ragged [[1, 2], [3], [4, 5, 6, 7]]), (''m'', Flat [10, 20, 30])] ''eta'' = None"
    by simp
  have p: "pad_size (cfg (ex_self ex_cfg_eta)) = 3"
    by (simp add: ex_self_def ex_cfg_eta_def ex_cfg_def)
  show ?thesis
    using load_missing_column_raises [OF a b c d e f g, of 3] by (simp add: k p)
qed


text \<open>
  C7 as stated fails: \<open>sig\<close> lacks \<open>eta\<close> in jet 1 and \<open>bkg\<close> lacks it in jet 2, and both
  loads raise the same error, which names neither the sample nor the jet.
\<close>

theorem missing_column_error_counterexample:
  "fst (load ex_env ex_files (Some [''sig'']) (ex_self ex_cfg_eta)) = Inl (FieldNotFoundError ''eta'') \<and>
   fst (load ex_env ex_files (Some [''bkg'']) (ex_self ex_cfg_eta)) = Inl (FieldNotFoundError ''eta'')"
  by code_simp


section \<open>The accessor \<open>masks\<close>\<close>

text \<open>
  C9. Whenever the base class defines no attribute \<^verbatim>\<open>features\<close>, reading the property
  \<^verbatim>\<open>masks\<close> raises \<^verbatim>\<open>AttributeError\<close> for \<^verbatim>\<open>features\<close>, whatever \<open>load\<close> published.
\<close>

theorem masks_property_raises:
  assumes "base ''features'' = None"
  shows "masks_property base self = Inl (AttributeError ''features'')"
  using assms by (simp add: masks_property_def getattr_pcd_def other_attributes_def)


theorem masks_property_raises_witness:
  "masks_property (\<lambda>name. if name = ''stdout'' then Some PyOther else None)
     (snd (load ex_env ex_files None (ex_self ex_cfg))) = Inl (AttributeError ''features'')"
  using masks_property_raises
    [of "\<lambda>name. if name = ''stdout'' then Some PyOther else None"
        "snd (load ex_env ex_files None (ex_self ex_cfg))"]
  by simp


section \<open>The mask entry of the feature dictionary\<close>

lemma load_columns_mask:
  assumes "load_columns p n sa jkey columns fa m = Inr (fa', m')"
      and "m \<noteq> None \<or> (\<exists>column\<in>set columns. column_is_ragged sa jkey column)"
  shows "m' \<noteq> None"
  using assms
proof (induction columns arbitrary: fa m)
  case Nil
  then show ?case by simp
next
  case (Cons column columns)
  from Cons.prems(1) obtain jet arrays where j: "map_of (jets sa) jkey = Some jet" "map_of jet column = Some arrays"
    by (auto simp: getitem_def split: option.splits)
  show ?case
  proof (cases arrays)
    case (Flat xs)
    with j Cons.prems(1) obtain a where run: "load_columns p n sa jkey columns (fa @ [a]) m = Inr (fa', m')"
      by (simp add: getitem_def)
    have "m \<noteq> None \<or> (\<exists>column\<in>set columns. column_is_ragged sa jkey column)"
      using Cons.prems(2) j Flat by (auto simp: column_is_ragged_def is_ragged_def)
    from Cons.IH[OF run this] show ?thesis .
  next
    case (Regular width rows)
    with j Cons.prems(1) obtain a where run: "load_columns p n sa jkey columns (fa @ [a]) m = Inr (fa', m')"
      by (simp add: getitem_def)
    have "m \<noteq> None \<or> (\<exists>column\<in>set columns. column_is_ragged sa jkey column)"
      using Cons.prems(2) j Regular by (auto simp: column_is_ragged_def is_ragged_def)
    from Cons.IH[OF run this] show ?thesis .
  next
    case (Ragged xss)
    let ?m1 = "case m of None \<Rightarrow> Some (get_mask_array xss p (Some n)) | Some x \<Rightarrow> Some x"
    from Ragged j Cons.prems(1) have run: "load_columns p n sa jkey columns (fa @ [get_padded_array xss p (Some n)]) ?m1 = Inr (fa', m')"
      by (simp add: getitem_def)
    have "?m1 \<noteq> None" by (simp split: option.splits)
    then show ?thesis using Cons.IH[OF run] by blast
  qed
qed

lemma load_jets_mask:
  assumes "load_jets p n sa columns js jfa jma = Inr (jfa', jma')"
      and "jma \<noteq> [] \<or> (\<exists>i\<in>set js. \<exists>column\<in>set columns. column_is_ragged sa (jet_key i) column)"
  shows "jma' \<noteq> []"
  using assms
proof (induction js arbitrary: jfa jma)
  case Nil
  then show ?case by simp
next
  case (Cons j js)
  from Cons.prems(1) obtain fa m t where
    lc: "load_columns p n sa (jet_key j) columns [] None = Inr (fa, m)" and
    run: "load_jets p n sa columns js (jfa @ [t]) (case m of None \<Rightarrow> jma | Some x \<Rightarrow> jma @ [x]) = Inr (jfa', jma')"
    by (auto split: sum.splits prod.splits)
  have "(case m of None \<Rightarrow> jma | Some x \<Rightarrow> jma @ [x]) \<noteq> [] \<or>
        (\<exists>i\<in>set js. \<exists>column\<in>set columns. column_is_ragged sa (jet_key i) column)"
  proof (cases "\<exists>column\<in>set columns. column_is_ragged sa (jet_key j) column")
    case True
    then have "m \<noteq> None" using load_columns_mask[OF lc] by blast
    then show ?thesis by (auto split: option.splits)
  next
    case False
    with Cons.prems(2) show ?thesis by (auto split: option.splits)
  qed
  from Cons.IH[OF run this] show ?case .
qed


lemma load_feature_type_mask:
  assumes "load_feature_type c n sa columns = Inr (t, mo)"
      and "\<exists>i\<in>set [1..<num_jets c + 1]. \<exists>column\<in>set columns. column_is_ragged sa (jet_key i) column"
  shows "mo \<noteq> None"
proof -
  from assms(1) obtain jfa jma where
    lj: "load_jets (pad_size c) n sa columns [1..<num_jets c + 1] [] [] = Inr (jfa, jma)"
    unfolding load_feature_type_def by (auto split: sum.splits prod.splits)
  have "jma \<noteq> []" using load_jets_mask[OF lj] assms(2) by blast
  with assms(1) lj show ?thesis
    unfolding load_feature_type_def by (auto split: sum.splits prod.splits)
qed

lemma load_feature_types_mask:
  assumes "load_feature_types c n sa groups fs M = Inr (fs', M')"
      and "M \<noteq> None \<or> (\<exists>(ft, columns)\<in>set groups. \<exists>i\<in>set [1..<num_jets c + 1].
              \<exists>column\<in>set columns. column_is_ragged sa (jet_key i) column)"
  shows "M' \<noteq> None"
  using assms
proof (induction groups arbitrary: fs M)
  case Nil
  then show ?case by simp
next
  case (Cons g groups)
  obtain ft columns where g: "g = (ft, columns)" by (cases g)
  from Cons.prems(1) obtain t mo where
    lt: "load_feature_type c n sa columns = Inr (t, mo)" and
    run: "load_feature_types c n sa groups (append_feature ft t fs)
            (case mo of None \<Rightarrow> M | Some m \<Rightarrow> Some m) = Inr (fs', M')"
    unfolding g by (auto split: sum.splits prod.splits)
  have "(case mo of None \<Rightarrow> M | Some m \<Rightarrow> Some m) \<noteq> None \<or>
        (\<exists>(ft, columns)\<in>set groups. \<exists>i\<in>set [1..<num_jets c + 1].
              \<exists>column\<in>set columns. column_is_ragged sa (jet_key i) column)"
  proof (cases "\<exists>i\<in>set [1..<num_jets c + 1]. \<exists>column\<in>set columns. column_is_ragged sa (jet_key i) column")
    case True
    then have "mo \<noteq> None" by (rule load_feature_type_mask[OF lt])
    then show ?thesis by (auto split: option.splits)
  next
    case False
    with Cons.prems(2) show ?thesis unfolding g by (auto split: option.splits)
  qed
  from Cons.IH[OF run this] show ?case .
qed

lemma prepare_sample_parts:
  assumes "prepare_sample c sample cv cached loc = Inr loc1"
  shows "\<exists>sa n fs M. cached = Some sa \<and>
           load_feature_types c n sa (feature_dict c) (features loc) None = Inr (fs, M) \<and>
           loc1 = \<lparr>features = fs, labels = labels loc @ [replicate n cv],
                   masks = (case M of None \<Rightarrow> masks loc | Some m \<Rightarrow> masks loc @ [m]),
                   class_sizes = add_class_size cv n (class_sizes loc)\<rparr>"
  using assms
  by (auto simp: prepare_sample_def Let_def split: option.splits sum.splits if_splits prod.splits)

lemma prepare_sample_masks_mono:
  assumes "prepare_sample c sample cv cached loc = Inr loc1" "masks loc \<noteq> []"
  shows "masks loc1 \<noteq> []"
  using prepare_sample_parts[OF assms(1)] assms(2) by (auto split: option.splits)

lemma prepare_sample_masks_ragged:
  assumes "prepare_sample c sample cv (Some sa) loc = Inr loc1" "has_ragged c sa"
  shows "masks loc1 \<noteq> []"
proof -
  from prepare_sample_parts[OF assms(1)] obtain n fs M where
    lf: "load_feature_types c n sa (feature_dict c) (features loc) None = Inr (fs, M)" and
    m1: "masks loc1 = (case M of None \<Rightarrow> masks loc | Some m \<Rightarrow> masks loc @ [m])"
    by auto
  from assms(2) have "M \<noteq> None"
    unfolding has_ragged_def by (intro load_feature_types_mask[OF lf] disjI2)
  then show ?thesis by (auto simp: m1)
qed

lemma append_feature_keys:
  "distinct (map fst fs) \<Longrightarrow> distinct (map fst (append_feature ft t fs))"
  by (simp add: append_feature_def Let_def distinct_update)

lemma load_feature_types_distinct:
  "load_feature_types c n sa groups fs M = Inr (fs', M') \<Longrightarrow> distinct (map fst fs) \<Longrightarrow>
   distinct (map fst fs')"
proof (induction groups arbitrary: fs M)
  case Nil
  then show ?case by simp
next
  case (Cons g groups)
  obtain ft columns where g: "g = (ft, columns)" by (cases g)
  from Cons.prems(1) obtain t mo where
    run: "load_feature_types c n sa groups (append_feature ft t fs)
            (case mo of None \<Rightarrow> M | Some m \<Rightarrow> Some m) = Inr (fs', M')"
    unfolding g by (auto split: sum.splits prod.splits)
  from Cons.IH[OF run append_feature_keys[OF Cons.prems(2)]] show ?case .
qed

lemma prepare_sample_distinct:
  assumes "prepare_sample c sample cv cached loc = Inr loc1" "distinct (map fst (features loc))"
  shows "distinct (map fst (features loc1))"
  using prepare_sample_parts[OF assms(1)] assms(2) load_feature_types_distinct by fastforce

lemma concatenate_features_keys:
  "concatenate_features fs = Inr r \<Longrightarrow> map fst r = map fst fs"
  by (induction fs arbitrary: r rule: concatenate_features.induct) (auto split: sum.splits)

lemma assemble_not_shuffle:
  "assemble ev c loc = Inr r \<Longrightarrow> \<not> shuffle c"
  by (auto simp: assemble_def shuffle_events_def read_local_def Let_def split: sum.splits prod.splits if_splits)

lemma assemble_part_masks:
  assumes "assemble ev c loc = Inr (fd, L, W)" "masks loc \<noteq> []" "distinct (map fst (features loc))"
  shows "\<exists>m. np_concatenate (masks loc) = Inr m \<and> map_of fd ''part_masks'' = Some (Mask m) \<and>
             distinct (map fst fd)"
proof -
  note ns = assemble_not_shuffle[OF assms(1)]
  from assms(1) obtain fs ls ms sizes where cb: "combine loc = Inr (fs, ls, ms, sizes)"
    by (auto simp: assemble_def split: sum.splits)
  from cb assms(2) obtain m where m: "np_concatenate (masks loc) = Inr m" "ms = Some m"
    and cf: "concatenate_features (features loc) = Inr fs"
    by (auto simp: combine_def Let_def split: sum.splits if_splits)
  have fd: "fd = AList.update ''part_masks'' (Mask m) (map (\<lambda>(feature_type, t). (feature_type, Feat t)) fs)"
    using assms(1) cb ns m by (simp add: assemble_def Let_def)
  have k: "map fst (map (\<lambda>(feature_type, t). (feature_type, Feat t)) fs) = map fst (features loc)"
    using concatenate_features_keys[OF cf] by (simp add: case_prod_unfold comp_def)
  have "distinct (map fst fd)"
    unfolding fd using assms(3) k by (simp add: distinct_update)
  moreover have "map_of fd ''part_masks'' = Some (Mask m)"
    unfolding fd by (simp add: update_conv')
  ultimately show ?thesis using m by blast
qed


text \<open>
  C10. When \<open>load\<close> returns normally and a record it prepared a sample from has a
  list-valued column in a configured feature group, the published dictionary maps
  \<^verbatim>\<open>part_masks\<close> to the concatenation of the samples' masks, and its keys are distinct:
  a feature group of that name does not survive beside the mask.
\<close>

theorem load_publishes_part_masks:
  assumes "fst (load ev fnames samples self) = Inr ()"
      and "samples1 = (case samples of None \<Rightarrow> map fst (label_map (cfg self)) | Some ss \<Rightarrow> ss)"
      and "prepared_from ev fnames samples1 sa" and "has_ragged (cfg self) sa"
  shows "\<exists>loc self1 m fd.
           load_samples ev fnames samples1 (clear_cache self) locals0 = (Inr loc, self1) \<and>
           np_concatenate (masks loc) = Inr m \<and>
           X (snd (load ev fnames samples self)) = Some fd \<and>
           map_of fd ''part_masks'' = Some (Mask m) \<and> distinct (map fst fd)"
proof -
  obtain r1 s1 where st: "load_samples ev fnames samples1 (clear_cache self) locals0 = (r1, s1)"
    by (cases "load_samples ev fnames samples1 (clear_cache self) locals0")
  note L = load_unfold[OF st[unfolded assms(2)]]
  from assms(1) obtain loc where r1: "r1 = Inr loc"
    unfolding L by (cases r1) auto
  from assms(1) r1 obtain fd L' W where asm: "assemble ev (cfg s1) loc = Inr (fd, L', W)"
    unfolding L by (auto split: sum.splits)
  have m: "masks loc \<noteq> []"
    using load_samples_prepared[OF st[unfolded r1] assms(3), of "\<lambda>l. masks l \<noteq> []"]
      prepare_sample_masks_mono prepare_sample_masks_ragged[OF _ assms(4)]
    by (auto simp: clear_cache_fields)
  have d: "distinct (map fst (features loc))"
    using load_samples_invariant[OF st[unfolded r1], of "\<lambda>l. distinct (map fst (features l))"]
      prepare_sample_distinct by (auto simp: locals0_def)
  have x: "X (snd (load ev fnames samples self)) = Some fd"
    unfolding L using r1 asm by (simp add: X_def clear_cache_fields)
  from assemble_part_masks[OF asm m d] st r1 x show ?thesis by blast
qed

theorem load_publishes_part_masks_witness:
  "fst (load ex_env ex_files None (ex_self ex_cfg_pm)) = Inr () \<and>
   (\<exists>loc self1 m fd.
      load_samples ex_env ex_files [''sig'', ''bkg''] (clear_cache (ex_self ex_cfg_pm)) locals0 = (Inr loc, self1) \<and>
      np_concatenate (masks loc) = Inr m \<and>
      X (snd (load ex_env ex_files None (ex_self ex_cfg_pm))) = Some fd \<and>
      map_of fd ''part_masks'' = Some (Mask m) \<and> distinct (map fst fd))"
proof -
  have k: "jet_key (Suc 0) = ''j1''" by code_simp
  have a: "fst (load ex_env ex_files None (ex_self ex_cfg_pm)) = Inr ()" by code_simp
  have b: "[''sig'', ''bkg''] =
             (case None of None \<Rightarrow> map fst (label_map (cfg (ex_self ex_cfg_pm))) | Some ss \<Rightarrow> ss)"
    by (simp add: ex_self_def ex_cfg_pm_def ex_cfg_def)
  have c: "prepared_from ex_env ex_files [''sig'', ''bkg''] ex_sig"
    by (simp add: prepared_from_def ex_files_def ex_env_def)
  have r: "column_is_ragged ex_sig (jet_key 1) ''pt''"
    by (simp add: column_is_ragged_def k ex_sig_def is_ragged_def)
  have "\<exists>i\<in>set [1..<2 + 1]. \<exists>column\<in>set [''pt'']. column_is_ragged ex_sig (jet_key i) column"
    using r by (intro bexI[of _ 1] bexI[of _ "''pt''"]) simp_all
  then have d: "has_ragged (cfg (ex_self ex_cfg_pm)) ex_sig"
    by (simp add: has_ragged_def ex_self_def ex_cfg_pm_def ex_cfg_def)
  show ?thesis
    using a load_publishes_part_masks [OF a b c d] by blast
qed

section \<open>Class weights\<close>

lemma count_list_replicate: "count_list (replicate n a) v = (if v = a then n else 0)"
  by (induction n) auto

lemma map_of_add_class_size:
  "map_of (add_class_size cv n cs) v =
     (if v = cv then Some ((case map_of cs cv of None \<Rightarrow> 0 | Some k \<Rightarrow> k) + n) else map_of cs v)"
  by (auto simp: add_class_size_def Let_def update_conv' split: option.splits)

lemma distinct_add_class_size:
  "distinct (map fst cs) \<Longrightarrow> distinct (map fst (add_class_size cv n cs))"
  by (simp add: add_class_size_def Let_def distinct_update)

lemma class_size_add:
  "(case map_of (add_class_size cv n cs) v of None \<Rightarrow> 0 | Some k \<Rightarrow> k) =
     (case map_of cs v of None \<Rightarrow> 0 | Some k \<Rightarrow> k) + (if v = cv then n else 0)"
  by (simp add: map_of_add_class_size)

lemma prepare_sample_contribution:
  assumes "prepare_sample c sample cv cached loc = Inr loc1"
  shows "\<exists>sa n. cached = Some sa \<and> sample_size_of c sample sa = Inr n \<and>
           labels loc1 = labels loc @ [replicate n cv] \<and>
           class_sizes loc1 = add_class_size cv n (class_sizes loc)"
  using assms
  by (auto simp: prepare_sample_def split: option.splits sum.splits prod.splits)

lemma class_events_snoc:
  "class_events (xs @ [(sample, cv, n, sa)]) v = class_events xs v + (if v = cv then n else 0)"
  by (simp add: class_events_def)

lemma prepare_sample_contributions_inv:
  assumes "prepare_sample c sample cv cached loc = Inr loc1"
      and "map_of (label_map c) sample = Some cv" and "contributions_inv c xs loc"
  shows "\<exists>x. fst x = sample \<and> contributions_inv c (xs @ [x]) loc1"
proof -
  from prepare_sample_contribution[OF assms(1)] obtain sa n where
    n: "sample_size_of c sample sa = Inr n"
       "labels loc1 = labels loc @ [replicate n cv]"
       "class_sizes loc1 = add_class_size cv n (class_sizes loc)" by blast
  let ?x = "(sample, cv, n, sa)"
  have c: "contributes c ?x" using n(1) assms(2) by (simp add: contributes_def)
  have d: "distinct (map fst (class_sizes loc1))"
    using assms(3) by (simp add: n contributions_inv_def distinct_add_class_size)
  have s: "\<forall>v. (case map_of (class_sizes loc1) v of None \<Rightarrow> 0 | Some k \<Rightarrow> k) =
                class_events (xs @ [?x]) v"
    using assms(3) unfolding n class_size_add class_events_snoc contributions_inv_def by simp
  have "contributions_inv c (xs @ [?x]) loc1"
    unfolding contributions_inv_def using assms(3) c d s n(2)
    by (simp add: contributions_inv_def)
  then show ?thesis by (intro exI[of _ ?x]) simp
qed

lemma load_samples_contributions:
  assumes "load_samples ev fnames samples self loc = (Inr loc1, self1)"
      and "contributions_inv (cfg self) xs loc"
  shows "\<exists>ys. map fst ys = samples \<and> contributions_inv (cfg self) (xs @ ys) loc1"
  using assms
proof (induction samples arbitrary: self loc xs)
  case Nil
  then show ?case by simp
next
  case (Cons s samples)
  obtain r1 s1 where st: "load_sample ev fnames s self loc = (r1, s1)"
    by (cases "load_sample ev fnames s self loc")
  from Cons.prems(1) st obtain loc2 where r1: "r1 = Inr loc2" by (cases r1) auto
  with Cons.prems(1) st have run: "load_samples ev fnames samples s1 loc2 = (Inr loc1, self1)" by simp
  have c: "cfg s1 = cfg self" using load_sample_frame[OF st] by simp
  from load_sample_prepare[OF st[unfolded r1]] obtain cv where
    cv: "map_of (label_map (cfg self)) s = Some cv" and
    ps: "prepare_sample (cfg self) s cv (cache_sample_arrays s1) loc = Inr loc2" by blast
  from prepare_sample_contributions_inv[OF ps cv Cons.prems(2)] obtain x where
    x: "fst x = s" "contributions_inv (cfg self) (xs @ [x]) loc2" by blast
  from Cons.IH[OF run, of "xs @ [x]"] x(2) c obtain ys where
    ys: "map fst ys = samples" "contributions_inv (cfg self) ((xs @ [x]) @ ys) loc1" by auto
  then show ?case using x(1) by (intro exI[of _ "x # ys"]) simp
qed

lemma count_list_contributed: "count_list (contributed_labels xs) v = class_events xs v"
  by (induction xs) (auto simp: contributed_labels_def class_events_def count_list_replicate)

lemma divide_class_length: "length ws = length ls \<Longrightarrow> length (divide_class ev ls cs ws) = length ls"
  by (simp add: divide_class_def)

lemma fold_divide_class_length:
  "length ws = length ls \<Longrightarrow> length (fold (divide_class ev ls) sizes ws) = length ls"
  by (induction sizes arbitrary: ws) (auto simp: divide_class_length)

lemma fold_divide_class_nth:
  "distinct (map fst sizes) \<Longrightarrow> length ws = length ls \<Longrightarrow> i < length ls \<Longrightarrow>
   fold (divide_class ev ls) sizes ws ! i =
     (case map_of sizes (ls ! i) of None \<Rightarrow> ws ! i | Some n \<Rightarrow> float_divide ev (ws ! i) n)"
proof (induction sizes arbitrary: ws)
  case Nil
  then show ?case by simp
next
  case (Cons cs sizes)
  obtain cv n where cs: "cs = (cv, n)" by (cases cs)
  have len: "length (divide_class ev ls cs ws) = length ls" using Cons.prems by (simp add: divide_class_length)
  have d: "distinct (map fst sizes)" using Cons.prems by simp
  have nth: "divide_class ev ls cs ws ! i = (if ls ! i = cv then float_divide ev (ws ! i) n else ws ! i)"
    using Cons.prems by (simp add: divide_class_def cs)
  have notin: "ls ! i = cv \<Longrightarrow> map_of sizes (ls ! i) = None"
    using Cons.prems(1) by (auto simp: cs map_of_eq_None_iff)
  show ?case
    using Cons.IH[OF d len Cons.prems(3)] nth notin by (auto simp: cs split: option.splits)
qed

lemma class_weights_nth:
  assumes "distinct (map fst sizes)"
      and "\<forall>v. (case map_of sizes v of None \<Rightarrow> 0 | Some n \<Rightarrow> n) = count_list ls v"
      and "i < length ls"
  shows "class_weights ev sizes ls ! i = float_divide ev 1 (count_list ls (ls ! i))"
proof -
  have pos: "count_list ls (ls ! i) > 0" using assms(3) by (metis count_list_0_iff gr0I nth_mem)
  then obtain n where "map_of sizes (ls ! i) = Some n" "n = count_list ls (ls ! i)"
    using assms(2)[rule_format, of "ls ! i"] by (auto split: option.splits)
  then show ?thesis
    using fold_divide_class_nth[OF assms(1) _ assms(3), of "replicate (length ls) 1" ev] assms(3)
    by (simp add: class_weights_def)
qed

lemma class_weights_length: "length (class_weights ev sizes ls) = length ls"
  by (simp add: class_weights_def fold_divide_class_length)

lemma sum_class:
  "sum_list (map snd (filter (\<lambda>(l, w). l = v) (zip ls (map f ls)))) = of_nat (count_list ls v) * (f v :: rat)"
  by (induction ls) (auto simp: algebra_simps)

lemma scaled_error:
  fixes q eps :: rat
  assumes "0 < N" "\<bar>q - 1 / of_nat N\<bar> \<le> eps / of_nat N"
  shows "\<bar>of_nat N * q - 1\<bar> \<le> eps"
proof -
  have N: "(0::rat) < of_nat N" using assms(1) by simp
  have "of_nat N * q - 1 = of_nat N * (q - 1 / of_nat N)"
    using N by (simp add: field_simps)
  then have "\<bar>of_nat N * q - 1\<bar> = of_nat N * \<bar>q - 1 / of_nat N\<bar>"
    using N by (simp add: abs_mult)
  also have "\<dots> \<le> of_nat N * (eps / of_nat N)"
    using N assms(2) by (intro mult_left_mono) simp_all
  also have "\<dots> = eps" using N by simp
  finally show ?thesis .
qed

lemma assemble_weights:
  assumes "assemble ev c loc = Inr (fd, L, W)" "contributions_inv c0 xs loc"
  shows "L = expand_dims (contributed_labels xs) \<and>
         (\<exists>ws. W = expand_dims ws \<and> length ws = length (contributed_labels xs) \<and>
            (\<forall>i<length ws. ws ! i = float_divide ev 1 (class_events xs (contributed_labels xs ! i))) \<and>
            (\<forall>v. class_total (contributed_labels xs) ws v =
                   of_nat (class_events xs v) * float_divide ev 1 (class_events xs v)))"
proof -
  from assms(1) obtain fs ls ms sizes where cb: "combine loc = Inr (fs, ls, ms, sizes)"
    by (auto simp: assemble_def split: sum.splits)
  have ns: "\<not> shuffle c"
    using assms(1) cb by (auto simp: assemble_def shuffle_events_def read_local_def Let_def split: sum.splits if_splits)
  have "ls = concat (labels loc)"
    using cb by (auto simp: combine_def concatenate_labels_def Let_def split: sum.splits if_splits)
  then have lsc: "ls = contributed_labels xs"
    using assms(2) by (simp add: contributions_inv_def contributed_labels_def)
  let ?ws = "class_weights ev (class_sizes loc) ls"
  have LW: "L = expand_dims ls" "W = expand_dims ?ws"
    using assms(1) cb ns by (auto simp: assemble_def Let_def split: option.splits)
  have d: "distinct (map fst (class_sizes loc))"
    and cs: "\<forall>v. (case map_of (class_sizes loc) v of None \<Rightarrow> 0 | Some n \<Rightarrow> n) = count_list ls v"
    using assms(2) by (simp_all add: contributions_inv_def lsc count_list_contributed)
  have nth: "\<forall>i<length ls. ?ws ! i = float_divide ev 1 (count_list ls (ls ! i))"
    using class_weights_nth[OF d cs] by simp
  have len: "length ?ws = length ls" by (rule class_weights_length)
  have eq: "?ws = map (\<lambda>l. float_divide ev 1 (count_list ls l)) ls"
    using nth len by (intro nth_equalityI) auto
  have tot: "\<forall>v. class_total ls ?ws v = of_nat (count_list ls v) * float_divide ev 1 (count_list ls v)"
    unfolding class_total_def by (subst eq) (simp add: sum_class)
  show ?thesis
    using LW nth len tot unfolding lsc count_list_contributed by auto
qed

text \<open>
  C5. In every dataset \<open>load\<close> publishes, the labels are those of the contributions of
  the samples, in the order of the samples: each sample contributes as many events as
  lines 117--125 take from its record, size override included, all labelled with the
  class value \<^verbatim>\<open>label_map\<close> gives the sample, and \<^verbatim>\<open>class_sizes\<close> holds for every class
  the number \<open>N\<close> of events its samples contribute, which is the number of events that
  carry its label. The weight of every event of a class is the float64 quotient of 1.0
  and the \<open>N\<close> of the class. The weights of a class add up to \<open>N\<close> times that quotient,
  so their sum is within \<open>eps\<close> of 1 whenever the float64 division returns the quotient
  with a relative error of at most \<open>eps\<close>; IEEE 754 division keeps it below \<open>2 ^ - 53\<close>.
  The sum is the exact one of the stored values. The class values are those that int64
  holds.
\<close>

theorem load_weights_inverse_class_size:
  assumes "fst (load ev fnames samples self) = Inr ()"
      and "samples1 = (case samples of None \<Rightarrow> map fst (label_map (cfg self)) | Some ss \<Rightarrow> ss)"
      and "\<forall>(sample, class_val)\<in>set (label_map (cfg self)). int64 class_val"
  shows "\<exists>xs ws loc self1.
           load_samples ev fnames samples1 (clear_cache self) locals0 = (Inr loc, self1) \<and>
           map fst xs = samples1 \<and> contributions_inv (cfg self) xs loc \<and>
           y (snd (load ev fnames samples self)) = Some (expand_dims (contributed_labels xs)) \<and>
           weight (snd (load ev fnames samples self)) = Some (expand_dims ws) \<and>
           length ws = length (contributed_labels xs) \<and>
           (\<forall>v. class_events xs v = count_list (contributed_labels xs) v) \<and>
           (\<forall>i<length ws. ws ! i = float_divide ev 1 (class_events xs (contributed_labels xs ! i))) \<and>
           (\<forall>v\<in>set (contributed_labels xs). \<forall>eps.
              \<bar>float_divide ev 1 (class_events xs v) - 1 / of_nat (class_events xs v)\<bar>
                \<le> eps / of_nat (class_events xs v) \<longrightarrow>
              \<bar>class_total (contributed_labels xs) ws v - 1\<bar> \<le> eps)"
proof -
  obtain r1 s1 where st: "load_samples ev fnames samples1 (clear_cache self) locals0 = (r1, s1)"
    by (cases "load_samples ev fnames samples1 (clear_cache self) locals0")
  note L = load_unfold[OF st[unfolded assms(2)]]
  from assms(1) obtain loc where r1: "r1 = Inr loc"
    unfolding L by (cases r1) auto
  from assms(1) r1 obtain fd L' W where asm: "assemble ev (cfg s1) loc = Inr (fd, L', W)"
    unfolding L by (auto split: sum.splits)
  have "contributions_inv (cfg (clear_cache self)) [] locals0"
    by (simp add: contributions_inv_def locals0_def class_events_def)
  from load_samples_contributions[OF st[unfolded r1] this] obtain xs where
    xs: "map fst xs = samples1" "contributions_inv (cfg self) xs loc"
    by (auto simp: clear_cache_fields)
  from assemble_weights[OF asm xs(2)] obtain ws where
    w: "L' = expand_dims (contributed_labels xs)" "W = expand_dims ws"
       "length ws = length (contributed_labels xs)"
       "\<forall>i<length ws. ws ! i = float_divide ev 1 (class_events xs (contributed_labels xs ! i))"
       "\<forall>v. class_total (contributed_labels xs) ws v =
              of_nat (class_events xs v) * float_divide ev 1 (class_events xs v)"
    by blast
  have sl: "y (snd (load ev fnames samples self)) = Some L'"
    "weight (snd (load ev fnames samples self)) = Some W"
    unfolding L using r1 asm by (auto simp: y_def weight_def clear_cache_fields)
  have tol: "\<bar>class_total (contributed_labels xs) ws v - 1\<bar> \<le> eps"
    if "v \<in> set (contributed_labels xs)"
      and "\<bar>float_divide ev 1 (class_events xs v) - 1 / of_nat (class_events xs v)\<bar>
             \<le> eps / of_nat (class_events xs v)"
    for v eps
  proof -
    from that(1) have "count_list (contributed_labels xs) v > 0"
      by (metis count_list_0_iff gr0I)
    then have "0 < class_events xs v" by (simp add: count_list_contributed)
    from scaled_error[OF this that(2)] show ?thesis by (simp add: w(5))
  qed
  have cnt: "\<forall>v. class_events xs v = count_list (contributed_labels xs) v"
    by (simp add: count_list_contributed)
  from st r1 xs sl w(1-4) cnt tol show ?thesis by blast
qed

theorem load_weights_inverse_class_size_witness:
  "fst (load ex_env ex_files None (ex_self ex_cfg)) = Inr () \<and>
   (\<exists>xs ws. map fst xs = [''sig'', ''bkg''] \<and>
      (\<forall>x\<in>set xs. contributes ex_cfg x) \<and> contributed_labels xs = [1, 1, 1, 0, 0] \<and>
      y (snd (load ex_env ex_files None (ex_self ex_cfg))) = Some (expand_dims (contributed_labels xs)) \<and>
      weight (snd (load ex_env ex_files None (ex_self ex_cfg))) = Some (expand_dims ws) \<and>
      ws ! 0 = float_divide ex_env 1 3 \<and>
      \<bar>class_total (contributed_labels xs) ws 1 - 1\<bar> \<le> 1 / 2 ^ 53)"
proof -
  have ok: "fst (load ex_env ex_files None (ex_self ex_cfg)) = Inr ()"
    by code_simp
  have s1: "[''sig'', ''bkg''] =
              (case None of None \<Rightarrow> map fst (label_map (cfg (ex_self ex_cfg))) | Some ss \<Rightarrow> ss)"
    by (simp add: ex_self_def ex_cfg_def)
  have i64: "\<forall>(sample, class_val)\<in>set (label_map (cfg (ex_self ex_cfg))). int64 class_val"
    by (simp add: ex_self_def ex_cfg_def int64_def)
  have yv: "y (snd (load ex_env ex_files None (ex_self ex_cfg))) = Some (expand_dims [1, 1, 1, 0, 0])"
    by code_simp
  have fd: "\<bar>float_divide ex_env 1 3 - 1 / of_nat 3\<bar> \<le> (1 / 2 ^ 53) / of_nat 3"
    by code_simp
  from load_weights_inverse_class_size [OF ok s1 i64] obtain xs ws loc self1 where
    h: "map fst xs = [''sig'', ''bkg'']" "contributions_inv (cfg (ex_self ex_cfg)) xs loc"
       "y (snd (load ex_env ex_files None (ex_self ex_cfg))) = Some (expand_dims (contributed_labels xs))"
       "weight (snd (load ex_env ex_files None (ex_self ex_cfg))) = Some (expand_dims ws)"
       "length ws = length (contributed_labels xs)"
       "\<forall>v. class_events xs v = count_list (contributed_labels xs) v"
       "\<forall>i<length ws. ws ! i = float_divide ex_env 1 (class_events xs (contributed_labels xs ! i))"
       "\<forall>v\<in>set (contributed_labels xs). \<forall>eps.
              \<bar>float_divide ex_env 1 (class_events xs v) - 1 / of_nat (class_events xs v)\<bar>
                \<le> eps / of_nat (class_events xs v) \<longrightarrow>
              \<bar>class_total (contributed_labels xs) ws v - 1\<bar> \<le> eps"
    by (elim exE conjE) (rule that; assumption)
  have ls: "contributed_labels xs = [1, 1, 1, 0, 0]"
    using h(3) yv by (simp add: expand_dims_def)
  have n1: "class_events xs 1 = 3" using h(6) ls by simp
  have c: "\<forall>x\<in>set xs. contributes ex_cfg x"
    using h(2) by (simp add: contributions_inv_def ex_self_def)
  have w0: "ws ! 0 = float_divide ex_env 1 3"
    using h(7)[rule_format, of 0] h(5) ls n1 by simp
  have "1 \<in> set (contributed_labels xs)" by (simp add: ls)
  from h(8)[rule_format, OF this, of "1 / 2 ^ 53"] fd n1
  have t: "\<bar>class_total (contributed_labels xs) ws 1 - 1\<bar> \<le> 1 / 2 ^ 53" by simp
  show ?thesis
    by (intro conjI exI[of _ xs] exI[of _ ws]) (rule ok h(1) c ls h(3) h(4) w0 t)+
qed

section \<open>Event counts\<close>

lemma card_one_hd:
  assumes "card (set sizes) = 1" "x \<in> set sizes"
  shows "x = hd sizes"
proof -
  from assms(1) obtain a where a: "set sizes = {a}" by (metis card_1_singletonE)
  then have "sizes \<noteq> []" by auto
  then have "hd sizes \<in> set sizes" by simp
  with a assms(2) show ?thesis by simp
qed

lemma set_update_subset: "set (AList.update k v al) \<subseteq> insert (k, v) (set al)"
  by (induction al) auto

lemma combine_ok:
  assumes "combine loc = Inr (fs, ls, ms, sizes)"
  shows "(\<forall>t\<in>set (map snd fs). hd (shape t) = length ls) \<and>
         (\<forall>m. ms = Some m \<longrightarrow> hd (shape m) = length ls) \<and> ls = concat (labels loc)"
proof -
  from assms obtain fs' where cf: "concatenate_features (features loc) = Inr fs'"
    unfolding combine_def by (cases "concatenate_features (features loc)") simp_all
  let ?sizes = "map (\<lambda>(feature_type, t). hd (shape t)) fs'"
  from assms cf obtain ls' where cl: "concatenate_labels (labels loc) = Inr ls'"
    unfolding combine_def by (cases "concatenate_labels (labels loc)") (simp_all add: Let_def)
  have c1: "card (set ?sizes) = 1"
    using assms cf cl unfolding combine_def by (cases "card (set ?sizes) = 1") (simp_all add: Let_def)
  have c2: "hd ?sizes = length ls'"
    using assms cf cl c1 unfolding combine_def by (cases "hd ?sizes = length ls'") (simp_all add: Let_def)
  have r: "fs = fs' \<and> ls = ls' \<and> (\<forall>m. ms = Some m \<longrightarrow> hd (shape m) = hd ?sizes)"
    using assms cf cl c1 c2 unfolding combine_def
    by (auto simp: Let_def split: if_splits sum.splits)
  have "\<forall>t\<in>set (map snd fs'). hd (shape t) = length ls'"
  proof
    fix t assume "t \<in> set (map snd fs')"
    then have "hd (shape t) \<in> set ?sizes" by (force simp: case_prod_unfold)
    from card_one_hd[OF c1 this] c2 show "hd (shape t) = length ls'" by simp
  qed
  moreover have "ls' = concat (labels loc)"
    using cl by (auto simp: concatenate_labels_def split: if_splits)
  ultimately show ?thesis using r c2 by simp
qed

lemma assemble_counts:
  assumes "assemble ev c loc = Inr (fd, L, W)"
  shows "\<exists>n. (\<forall>t\<in>set (map snd fd). leading t = n) \<and> shape L = [n, 1] \<and> shape W = [n, 1]"
proof -
  note ns = assemble_not_shuffle[OF assms]
  from assms obtain fs ls ms sizes where cb: "combine loc = Inr (fs, ls, ms, sizes)"
    by (auto simp: assemble_def split: sum.splits)
  note ok = combine_ok[OF cb]
  let ?fd0 = "map (\<lambda>(feature_type, t). (feature_type, Feat t)) fs"
  have fd: "fd = (case ms of None \<Rightarrow> ?fd0 | Some m \<Rightarrow> AList.update ''part_masks'' (Mask m) ?fd0)"
    and L: "L = expand_dims ls" and W: "W = expand_dims (class_weights ev (class_sizes loc) ls)"
    using assms cb ns by (simp_all add: assemble_def Let_def)
  have f0: "\<forall>t\<in>set (map snd ?fd0). leading t = length ls"
    using ok by (auto simp: leading_def)
  have "\<forall>t\<in>set (map snd fd). leading t = length ls"
  proof (cases ms)
    case None
    with fd f0 show ?thesis by simp
  next
    case (Some m)
    with ok have lm: "leading (Mask m) = length ls" by (simp add: leading_def)
    show ?thesis
    proof
      fix t assume "t \<in> set (map snd fd)"
      then obtain k where "(k, t) \<in> set (AList.update ''part_masks'' (Mask m) ?fd0)"
        unfolding fd Some by auto
      with set_update_subset[of "''part_masks''" "Mask m" ?fd0]
      have "(k, t) = (''part_masks'', Mask m) \<or> (k, t) \<in> set ?fd0" by blast
      then show "leading t = length ls"
      proof
        assume "(k, t) = (''part_masks'', Mask m)"
        with lm show ?thesis by simp
      next
        assume "(k, t) \<in> set ?fd0"
        then have "t \<in> set (map snd ?fd0)" by force
        with f0 show ?thesis by blast
      qed
    qed
  qed
  then show ?thesis
    using L W by (auto simp: expand_dims_def class_weights_length)
qed

lemma combine_disagree:
  assumes "concatenate_features (features loc) = Inr fs" and "concatenate_labels (labels loc) = Inr ls"
      and "masks loc = [] \<or> (\<exists>m. np_concatenate (masks loc) = Inr m)"
      and "\<not> counts_agree fs ls (masks loc)"
  shows "combine loc = Inl (RuntimeError ''inconsistent sample size in different feature types'') \<or>
         combine loc = Inl (RuntimeError ''inconsistent sample size between features and labels'') \<or>
         (combine loc = Inl AssertionError \<and> (\<forall>t\<in>set (map snd fs). hd (shape t) = length ls))"
proof -
  let ?sizes = "map (\<lambda>(feature_type, t). hd (shape t)) fs"
  show ?thesis
  proof (cases "card (set ?sizes) = 1")
    case False
    then show ?thesis using assms(1,2) unfolding combine_def by (simp add: Let_def)
  next
    case c1: True
    show ?thesis
    proof (cases "hd ?sizes = length ls")
      case False
      then show ?thesis using assms(1,2) c1 unfolding combine_def by (simp add: Let_def)
    next
      case c2: True
      have all: "\<forall>t\<in>set (map snd fs). hd (shape t) = length ls"
      proof
        fix t assume "t \<in> set (map snd fs)"
        then have "hd (shape t) \<in> set ?sizes" by (force simp: case_prod_unfold)
        from card_one_hd[OF c1 this] c2 show "hd (shape t) = length ls" by simp
      qed
      have ne: "masks loc \<noteq> []"
        using all assms(4) by (auto simp: counts_agree_def)
      with assms(3) obtain m where m: "np_concatenate (masks loc) = Inr m" by blast
      have "hd (shape m) \<noteq> length ls"
        using all m ne assms(4) by (auto simp: counts_agree_def split: list.splits)
      then have "combine loc = Inl AssertionError"
        using assms(1,2) c1 c2 ne m unfolding combine_def by (simp add: Let_def)
      with all show ?thesis by blast
    qed
  qed
qed

text \<open>
  C4 (as the code has it). Every dataset \<open>load\<close> publishes has one event count \<open>n\<close>: each
  entry of the feature dictionary (the mask entry included) has leading length \<open>n\<close>, and
  labels and weights have shape \<open>(n, 1)\<close>. And when, after the loop over the samples, the
  concatenations succeed but the event counts of the feature groups, the mask and the
  labels do not all agree, \<open>load\<close> raises and leaves the published state as it was. The
  error is one of the two \<open>inconsistent sample size\<close> errors when the feature groups
  disagree with each other or with the labels; when they agree and only the mask has
  another event count, line 181 raises a bare \<^verbatim>\<open>AssertionError\<close>.
\<close>

theorem load_event_counts_agree:
  fixes ev fnames samples self
  defines "result \<equiv> load ev fnames samples self"
      and "looped \<equiv> load_samples ev fnames
             (case samples of None \<Rightarrow> map fst (label_map (cfg self)) | Some ss \<Rightarrow> ss)
             (clear_cache self) locals0"
  shows "(fst result = Inr () \<longrightarrow>
            (\<exists>n fd ls ws. X (snd result) = Some fd \<and> y (snd result) = Some ls \<and>
               weight (snd result) = Some ws \<and> (\<forall>t\<in>set (map snd fd). leading t = n) \<and>
               shape ls = [n, 1] \<and> shape ws = [n, 1])) \<and>
         (\<forall>loc fs ls.
            fst looped = Inr loc \<and>
            concatenate_features (features loc) = Inr fs \<and>
            concatenate_labels (labels loc) = Inr ls \<and>
            (masks loc = [] \<or> (\<exists>m. np_concatenate (masks loc) = Inr m)) \<and>
            \<not> counts_agree fs ls (masks loc) \<longrightarrow>
            (fst result = Inl (RuntimeError ''inconsistent sample size in different feature types'') \<or>
             fst result = Inl (RuntimeError ''inconsistent sample size between features and labels'') \<or>
             (fst result = Inl AssertionError \<and> (\<forall>t\<in>set (map snd fs). hd (shape t) = length ls))) \<and>
            p_features (snd result) = p_features self \<and>
            p_labels (snd result) = p_labels self \<and>
            p_weights (snd result) = p_weights self)"
proof -
  obtain r1 s1 where st: "looped = (r1, s1)" by (cases looped)
  note L = load_unfold[OF st[unfolded looped_def]]
  have fr: "cfg s1 = cfg self" "p_features s1 = p_features self" "p_labels s1 = p_labels self"
    "p_weights s1 = p_weights self"
    using load_samples_frame[OF st[unfolded looped_def]] by (simp_all add: clear_cache_fields)
  have a: "fst result = Inr () \<longrightarrow>
            (\<exists>n fd ls ws. X (snd result) = Some fd \<and> y (snd result) = Some ls \<and>
               weight (snd result) = Some ws \<and> (\<forall>t\<in>set (map snd fd). leading t = n) \<and>
               shape ls = [n, 1] \<and> shape ws = [n, 1])"
  proof
    assume ok: "fst result = Inr ()"
    then obtain loc where r1: "r1 = Inr loc"
      unfolding result_def L by (cases r1) auto
    from ok r1 obtain fd L' W where asm: "assemble ev (cfg s1) loc = Inr (fd, L', W)"
      unfolding result_def L by (auto split: sum.splits)
    have "X (snd result) = Some fd" "y (snd result) = Some L'" "weight (snd result) = Some W"
      unfolding result_def L using r1 asm by (simp_all add: X_def y_def weight_def clear_cache_fields)
    with assemble_counts[OF asm] show "\<exists>n fd ls ws. X (snd result) = Some fd \<and> y (snd result) = Some ls \<and>
               weight (snd result) = Some ws \<and> (\<forall>t\<in>set (map snd fd). leading t = n) \<and>
               shape ls = [n, 1] \<and> shape ws = [n, 1]" by blast
  qed
  have b: "(fst result = Inl (RuntimeError ''inconsistent sample size in different feature types'') \<or>
            fst result = Inl (RuntimeError ''inconsistent sample size between features and labels'') \<or>
            (fst result = Inl AssertionError \<and> (\<forall>t\<in>set (map snd fs). hd (shape t) = length ls))) \<and>
           p_features (snd result) = p_features self \<and>
           p_labels (snd result) = p_labels self \<and>
           p_weights (snd result) = p_weights self"
    if h: "fst looped = Inr loc" "concatenate_features (features loc) = Inr fs"
        "concatenate_labels (labels loc) = Inr ls"
        "masks loc = [] \<or> (\<exists>m. np_concatenate (masks loc) = Inr m)"
        "\<not> counts_agree fs ls (masks loc)"
    for loc fs ls
  proof -
    from h(1) st have r1: "r1 = Inr loc" by simp
    from combine_disagree[OF h(2-5)] obtain e where
      e: "e = RuntimeError ''inconsistent sample size in different feature types'' \<or>
          e = RuntimeError ''inconsistent sample size between features and labels'' \<or>
          (e = AssertionError \<and> (\<forall>t\<in>set (map snd fs). hd (shape t) = length ls))"
      and cb: "combine loc = Inl e" by blast
    have "assemble ev (cfg s1) loc = Inl e"
      by (simp add: assemble_def cb)
    then have "result = (Inl e, s1)"
      unfolding result_def L by (simp add: r1)
    with e fr show ?thesis by auto
  qed
  from a b show ?thesis by blast
qed

theorem load_event_counts_agree_witness:
  "(\<exists>n fd ls ws. X (snd (load ex_env ex_files None (ex_self ex_cfg))) = Some fd \<and>
      y (snd (load ex_env ex_files None (ex_self ex_cfg))) = Some ls \<and>
      weight (snd (load ex_env ex_files None (ex_self ex_cfg))) = Some ws \<and>
      (\<forall>t\<in>set (map snd fd). leading t = n) \<and> shape ls = [n, 1] \<and> shape ws = [n, 1]) \<and>
   (fst (load ex_env ex_files (Some [''sig'']) (ex_self ex_cfg_jet)) =
      Inl (RuntimeError ''inconsistent sample size in different feature types'') \<or>
    fst (load ex_env ex_files (Some [''sig'']) (ex_self ex_cfg_jet)) =
      Inl (RuntimeError ''inconsistent sample size between features and labels'') \<or>
    fst (load ex_env ex_files (Some [''sig'']) (ex_self ex_cfg_jet)) = Inl AssertionError) \<and>
   p_features (snd (load ex_env ex_files (Some [''sig'']) (ex_self ex_cfg_jet))) =
     p_features (ex_self ex_cfg_jet) \<and>
   p_labels (snd (load ex_env ex_files (Some [''sig'']) (ex_self ex_cfg_jet))) =
     p_labels (ex_self ex_cfg_jet) \<and>
   p_weights (snd (load ex_env ex_files (Some [''sig'']) (ex_self ex_cfg_jet))) =
     p_weights (ex_self ex_cfg_jet)"
proof -
  have ok: "fst (load ex_env ex_files None (ex_self ex_cfg)) = Inr ()"
    by code_simp
  let ?looped = "load_samples ex_env ex_files
                   (case Some [''sig''] of None \<Rightarrow> map fst (label_map (cfg (ex_self ex_cfg_jet))) | Some ss \<Rightarrow> ss)
                   (clear_cache (ex_self ex_cfg_jet)) locals0"
  let ?loc = "projr (fst ?looped)"
  let ?fs = "projr (concatenate_features (features ?loc))"
  let ?ls = "projr (concatenate_labels (labels ?loc))"
  have h1: "fst ?looped = Inr ?loc" by code_simp
  have h2: "concatenate_features (features ?loc) = Inr ?fs" by code_simp
  have h3: "concatenate_labels (labels ?loc) = Inr ?ls" by code_simp
  have h4: "masks ?loc = []" by code_simp
  have h5: "\<not> counts_agree ?fs ?ls (masks ?loc)" by code_simp
  note t1 = load_event_counts_agree [of ex_env ex_files None "ex_self ex_cfg"]
  note t2 = load_event_counts_agree [of ex_env ex_files "Some [''sig'']" "ex_self ex_cfg_jet"]
  from t1 ok have a: "\<exists>n fd ls ws. X (snd (load ex_env ex_files None (ex_self ex_cfg))) = Some fd \<and>
      y (snd (load ex_env ex_files None (ex_self ex_cfg))) = Some ls \<and>
      weight (snd (load ex_env ex_files None (ex_self ex_cfg))) = Some ws \<and>
      (\<forall>t\<in>set (map snd fd). leading t = n) \<and> shape ls = [n, 1] \<and> shape ws = [n, 1]"
    by blast
  from t2 h1 h2 h3 h4 h5 have b:
    "(fst (load ex_env ex_files (Some [''sig'']) (ex_self ex_cfg_jet)) =
        Inl (RuntimeError ''inconsistent sample size in different feature types'') \<or>
      fst (load ex_env ex_files (Some [''sig'']) (ex_self ex_cfg_jet)) =
        Inl (RuntimeError ''inconsistent sample size between features and labels'') \<or>
      fst (load ex_env ex_files (Some [''sig'']) (ex_self ex_cfg_jet)) = Inl AssertionError) \<and>
     p_features (snd (load ex_env ex_files (Some [''sig'']) (ex_self ex_cfg_jet))) =
       p_features (ex_self ex_cfg_jet) \<and>
     p_labels (snd (load ex_env ex_files (Some [''sig'']) (ex_self ex_cfg_jet))) =
       p_labels (ex_self ex_cfg_jet) \<and>
     p_weights (snd (load ex_env ex_files (Some [''sig'']) (ex_self ex_cfg_jet))) =
       p_weights (ex_self ex_cfg_jet)"
    by blast
  from a b show ?thesis by blast
qed

text \<open>
  C4 as stated fails: the sample \<open>sig\<close> has columns of variable-length lists and brings a
  mask of its 3 events, the other sample has the same columns as lists of the fixed size
  3, the pad size, and brings none. The feature groups and the labels agree on 5 events,
  the concatenated mask has 3, and \<open>load\<close> raises the bare \<^verbatim>\<open>AssertionError\<close> of line
  181, not an \<open>inconsistent sample size\<close> error.
\<close>

theorem mask_count_assertion_counterexample:
  "fst (load ex_env ex_files_reg None (ex_self ex_cfg)) = Inl AssertionError \<and>
   (let loc = projr (fst (load_samples ex_env ex_files_reg [''sig'', ''bkg'']
                            (clear_cache (ex_self ex_cfg)) locals0))
    in map (\<lambda>(feature_type, t). hd (shape t)) (projr (concatenate_features (features loc))) = [5, 5] \<and>
       length (projr (concatenate_labels (labels loc))) = 5 \<and>
       hd (shape (projr (np_concatenate (masks loc)))) = 3)"
  by code_simp

end
